theory Spec2Isabelle
  imports Main
begin

section \<open>The MultiVector of hIPPYlib (cpp\_multivector/multivector.cpp)\<close>

text \<open>
  A MultiVector owns a \<open>std::vector\<close> of shared pointers to vector objects. The vector
  objects live in a store; a shared pointer is an address of that store, so that a
  vector handed to an operation by reference may be one of the MultiVector's own slots.

  The vector type itself (\<open>GenericVector\<close>) is not part of the file: its operations
  \<open>zero\<close>, \<open>axpy\<close>, \<open>inner\<close>, \<open>operator*=\<close> and \<open>norm\<close> are parameters of the
  model, functions on the values of vectors of an arbitrary type \<open>'v\<close> with scalars of an
  arbitrary type \<open>'d\<close> (the \<open>double\<close> of the source).
\<close>

subsection \<open>Errors\<close>

datatype error =
    LengthError       \<comment> \<open>\<open>std::vector\<close> constructed with a negative size\<close>
  | AssertionFailed   \<comment> \<open>an \<open>assert\<close> of the source does not hold\<close>
  | OutOfBounds       \<comment> \<open>read or write outside an array or a \<open>std::vector\<close> (undefined behaviour)\<close>
  | InvalidPointer    \<comment> \<open>dereference of an address that holds no vector (undefined behaviour)\<close>
  | IntOverflow       \<comment> \<open>signed overflow of an \<open>int\<close> expression (undefined behaviour)\<close>

subsection \<open>The vector capability and the store\<close>

type_synonym addr = nat

record ('v, 'd) GenericVector =
  gv_zero :: "'v \<Rightarrow> 'v"                    \<comment> \<open>\<open>x.zero()\<close>: the new value of \<open>x\<close>\<close>
  gv_axpy :: "'d \<Rightarrow> 'v \<Rightarrow> 'v \<Rightarrow> 'v"          \<comment> \<open>\<open>y.axpy(a, x)\<close>: the new value of \<open>y\<close>, from \<open>a\<close>, \<open>x\<close>, \<open>y\<close>\<close>
  gv_inner :: "'v \<Rightarrow> 'v \<Rightarrow> 'd"              \<comment> \<open>\<open>x.inner(y)\<close>\<close>
  gv_scale :: "'v \<Rightarrow> 'd \<Rightarrow> 'v"              \<comment> \<open>\<open>x *= a\<close>: the new value of \<open>x\<close>\<close>
  gv_norm :: "string \<Rightarrow> 'v \<Rightarrow> 'd"           \<comment> \<open>\<open>x.norm(norm_type)\<close>\<close>

record 'v store =
  vecs :: "'v list"                       \<comment> \<open>the vector objects, by address\<close>
  bufs :: nat                             \<comment> \<open>the number of \<open>std::vector\<close> buffers allocated so far\<close>
  inner_calls :: "(addr \<times> addr) list"     \<comment> \<open>the inner products evaluated so far, oldest first\<close>

record MultiVector =
  mv_begin :: nat                         \<comment> \<open>\<open>mv.begin()\<close>: the buffer of the \<open>std::vector\<close>, 0 when none\<close>
  mv :: "addr list"                       \<comment> \<open>the slots: shared pointers to vector objects\<close>

definition deref :: "'v store \<Rightarrow> addr \<Rightarrow> error + 'v" where
  "deref st p = (if p < length (vecs st) then Inr (vecs st ! p) else Inl InvalidPointer)"

text \<open>\<open>v.copy()\<close>: a new vector object with the value of \<open>v\<close>.\<close>

definition vec_copy :: "'v store \<Rightarrow> addr \<Rightarrow> error + (addr \<times> 'v store)" where
  "vec_copy st v =
     (case deref st v of Inl e \<Rightarrow> Inl e
      | Inr x \<Rightarrow> Inr (length (vecs st), st\<lparr>vecs := vecs st @ [x]\<rparr>))"

definition vec_zero :: "('v, 'd) GenericVector \<Rightarrow> 'v store \<Rightarrow> addr \<Rightarrow> error + 'v store" where
  "vec_zero ops st p =
     (case deref st p of Inl e \<Rightarrow> Inl e
      | Inr x \<Rightarrow> Inr (st\<lparr>vecs := (vecs st)[p := gv_zero ops x]\<rparr>))"

text \<open>\<open>y->axpy(a, *x)\<close>.\<close>

definition vec_axpy ::
  "('v, 'd) GenericVector \<Rightarrow> 'v store \<Rightarrow> addr \<Rightarrow> 'd \<Rightarrow> addr \<Rightarrow> error + 'v store" where
  "vec_axpy ops st y a x =
     (case deref st x of Inl e \<Rightarrow> Inl e
      | Inr xv \<Rightarrow>
     (case deref st y of Inl e \<Rightarrow> Inl e
      | Inr yv \<Rightarrow> Inr (st\<lparr>vecs := (vecs st)[y := gv_axpy ops a xv yv]\<rparr>)))"

text \<open>\<open>x->inner(*y)\<close>; the evaluation is recorded in the store.\<close>

definition vec_inner ::
  "('v, 'd) GenericVector \<Rightarrow> 'v store \<Rightarrow> addr \<Rightarrow> addr \<Rightarrow> error + ('d \<times> 'v store)" where
  "vec_inner ops st x y =
     (case deref st x of Inl e \<Rightarrow> Inl e
      | Inr xv \<Rightarrow>
     (case deref st y of Inl e \<Rightarrow> Inl e
      | Inr yv \<Rightarrow> Inr (gv_inner ops xv yv, st\<lparr>inner_calls := inner_calls st @ [(x, y)]\<rparr>)))"

text \<open>\<open>x->operator*=(a)\<close>.\<close>

definition vec_scale :: "('v, 'd) GenericVector \<Rightarrow> 'v store \<Rightarrow> addr \<Rightarrow> 'd \<Rightarrow> error + 'v store" where
  "vec_scale ops st x a =
     (case deref st x of Inl e \<Rightarrow> Inl e
      | Inr xv \<Rightarrow> Inr (st\<lparr>vecs := (vecs st)[x := gv_scale ops xv a]\<rparr>))"

text \<open>\<open>x->norm(norm_type)\<close>.\<close>

definition vec_norm :: "('v, 'd) GenericVector \<Rightarrow> 'v store \<Rightarrow> string \<Rightarrow> addr \<Rightarrow> error + 'd" where
  "vec_norm ops st norm_type x =
     (case deref st x of Inl e \<Rightarrow> Inl e | Inr xv \<Rightarrow> Inr (gv_norm ops norm_type xv))"

subsection \<open>Arrays, indices and the type \<open>int\<close>\<close>

text \<open>
  A \<open>dolfin::Array<double>\<close> is a size and a pointer to that many doubles: a list. Neither
  its \<open>operator[]\<close> nor a raw pointer into it checks the index it is given.
\<close>

definition array_get :: "'d list \<Rightarrow> nat \<Rightarrow> error + 'd" where
  "array_get a k = (if k < length a then Inr (a ! k) else Inl OutOfBounds)"

definition array_set :: "'d list \<Rightarrow> nat \<Rightarrow> 'd \<Rightarrow> error + 'd list" where
  "array_set m k x = (if k < length m then Inr (m[k := x]) else Inl OutOfBounds)"

definition INT_MAX :: int where
  "INT_MAX = 2147483647"

text \<open>The conversion of a \<open>std::size_t\<close> to \<open>int\<close> keeps the low 32 bits, read as signed.\<close>

definition int_of_size :: "nat \<Rightarrow> int" where
  "int_of_size n = signed_take_bit 31 (int n)"

text \<open>The index expression \<open>a + s*b\<close> on \<open>int\<close>, converted to the \<open>std::size_t\<close> of \<open>operator[]\<close>.\<close>

definition array_index :: "int \<Rightarrow> int \<Rightarrow> int \<Rightarrow> error + nat" where
  "array_index a s b =
     (if s * b < - INT_MAX - 1 \<or> INT_MAX < s * b \<or> a + s * b < - INT_MAX - 1 \<or> INT_MAX < a + s * b
      then Inl IntOverflow
      else if a + s * b < 0 then Inl OutOfBounds
      else Inr (nat (a + s * b)))"

text \<open>\<open>mv[i]\<close>: \<open>operator[]\<close> of \<open>std::vector\<close>, which checks nothing.\<close>

definition slot :: "MultiVector \<Rightarrow> int \<Rightarrow> error + addr" where
  "slot M i = (if 0 \<le> i \<and> nat i < length (mv M) then Inr (mv M ! nat i) else Inl OutOfBounds)"

text \<open>
  Modelled from the spec: \<open>nvec()\<close> is declared in \<open>multivector.hpp\<close>, which is not among the
  sources; it "returns N, the current number of contained vectors", as an \<open>int\<close>.
\<close>

definition nvec :: "MultiVector \<Rightarrow> int" where
  "nvec M = int_of_size (length (mv M))"

subsection \<open>Construction\<close>

text \<open>\<open>MultiVector::MultiVector()\<close>\<close>

definition MultiVector_default :: MultiVector where
  "MultiVector_default = \<lparr>mv_begin = 0, mv = []\<rparr>"

text \<open>
  \<open>mv(nvec)\<close>: a \<open>std::vector\<close> of \<open>n\<close> slots. A vector of no slots allocates nothing; any
  other gets a buffer of its own.
\<close>

definition alloc_buffer :: "'v store \<Rightarrow> nat \<Rightarrow> nat \<times> 'v store" where
  "alloc_buffer st n = (if n = 0 then (0, st) else (Suc (bufs st), st\<lparr>bufs := Suc (bufs st)\<rparr>))"

text \<open>The loop \<open>for(auto&& vj : mv) { vj = v.copy(); vj->zero(); }\<close> over \<open>n\<close> slots.\<close>

fun fill_slots ::
  "('v, 'd) GenericVector \<Rightarrow> 'v store \<Rightarrow> addr \<Rightarrow> nat \<Rightarrow> error + (addr list \<times> 'v store)" where
  "fill_slots ops st v 0 = Inr ([], st)"
| "fill_slots ops st v (Suc n) =
     (case vec_copy st v of Inl e \<Rightarrow> Inl e
      | Inr (vj, st1) \<Rightarrow>
     (case vec_zero ops st1 vj of Inl e \<Rightarrow> Inl e
      | Inr st2 \<Rightarrow>
     (case fill_slots ops st2 v n of Inl e \<Rightarrow> Inl e
      | Inr (rest, st3) \<Rightarrow> Inr (vj # rest, st3))))"

text \<open>\<open>MultiVector::MultiVector(const GenericVector & v, int nvec)\<close>\<close>

definition MultiVector_ctor ::
  "('v, 'd) GenericVector \<Rightarrow> 'v store \<Rightarrow> addr \<Rightarrow> int \<Rightarrow> error + (MultiVector \<times> 'v store)" where
  "MultiVector_ctor ops st v n =
     (if n < 0 then Inl LengthError
      else (case alloc_buffer st (nat n) of (b, st1) \<Rightarrow>
           (case fill_slots ops st1 v (nat n) of Inl e \<Rightarrow> Inl e
            | Inr (slots, st2) \<Rightarrow> Inr (\<lparr>mv_begin = b, mv = slots\<rparr>, st2))))"

subsection \<open>Inner products\<close>

text \<open>
  Every member function takes the store and the MultiVector it is called on. One that is
  \<open>const\<close> returns what it computes, with the store when the call changes it; one that
  is not returns the MultiVector and the store. A call that runs into an error returns the
  error alone.
\<close>

text \<open>\<open>MultiVector::dot(const GenericVector & v, Array<double> & m)\<close>\<close>

fun dot_vec_loop ::
  "('v, 'd) GenericVector \<Rightarrow> 'v store \<Rightarrow> addr list \<Rightarrow> addr \<Rightarrow> nat \<Rightarrow> 'd list
     \<Rightarrow> error + ('d list \<times> 'v store)" where
  "dot_vec_loop ops st [] v im m = Inr (m, st)"
| "dot_vec_loop ops st (vj # rest) v im m =
     (case vec_inner ops st vj v of Inl e \<Rightarrow> Inl e
      | Inr (x, st1) \<Rightarrow>
     (case array_set m im x of Inl e \<Rightarrow> Inl e
      | Inr m1 \<Rightarrow> dot_vec_loop ops st1 rest v (Suc im) m1))"

definition dot_GenericVector ::
  "('v, 'd) GenericVector \<Rightarrow> 'v store \<Rightarrow> MultiVector \<Rightarrow> addr \<Rightarrow> 'd list
     \<Rightarrow> error + ('d list \<times> 'v store)" where
  "dot_GenericVector ops st M v m = dot_vec_loop ops st (mv M) v 0 m"

text \<open>\<open>MultiVector::dot_self(Array<double> & m)\<close>: the loop on \<open>j\<close>, then the loop on \<open>i\<close>.\<close>

function dot_self_j ::
  "('v, 'd) GenericVector \<Rightarrow> 'v store \<Rightarrow> MultiVector \<Rightarrow> int \<Rightarrow> nat \<Rightarrow> nat \<Rightarrow> 'd list
     \<Rightarrow> error + ('d list \<times> 'v store)" where
  "dot_self_j ops st M s i j m =
     (if j < i then
        (case slot M (int i) of Inl e \<Rightarrow> Inl e
         | Inr vi \<Rightarrow>
        (case slot M (int j) of Inl e \<Rightarrow> Inl e
         | Inr vj \<Rightarrow>
        (case vec_inner ops st vi vj of Inl e \<Rightarrow> Inl e
         | Inr (x, st1) \<Rightarrow>
        (case array_index (int j) s (int i) of Inl e \<Rightarrow> Inl e
         | Inr k1 \<Rightarrow>
        (case array_set m k1 x of Inl e \<Rightarrow> Inl e
         | Inr m1 \<Rightarrow>
        (case array_index (int i) s (int j) of Inl e \<Rightarrow> Inl e
         | Inr k2 \<Rightarrow>
        (case array_set m1 k2 x of Inl e \<Rightarrow> Inl e
         | Inr m2 \<Rightarrow> dot_self_j ops st1 M s i (Suc j) m2)))))))
      else Inr (m, st))"
  by pat_completeness auto
termination
  by (relation "measure (\<lambda>(ops, st, M, s, i, j, m). i - j)") auto

declare dot_self_j.simps [simp del]

function dot_self_i ::
  "('v, 'd) GenericVector \<Rightarrow> 'v store \<Rightarrow> MultiVector \<Rightarrow> int \<Rightarrow> nat \<Rightarrow> 'd list
     \<Rightarrow> error + ('d list \<times> 'v store)" where
  "dot_self_i ops st M s i m =
     (if int i < s then
        (case slot M (int i) of Inl e \<Rightarrow> Inl e
         | Inr vi \<Rightarrow>
        (case vec_inner ops st vi vi of Inl e \<Rightarrow> Inl e
         | Inr (x, st1) \<Rightarrow>
        (case array_index (int i) s (int i) of Inl e \<Rightarrow> Inl e
         | Inr k \<Rightarrow>
        (case array_set m k x of Inl e \<Rightarrow> Inl e
         | Inr m1 \<Rightarrow>
        (case dot_self_j ops st1 M s i 0 m1 of Inl e \<Rightarrow> Inl e
         | Inr (m2, st2) \<Rightarrow> dot_self_i ops st2 M s (Suc i) m2)))))
      else Inr (m, st))"
  by pat_completeness auto
termination
  by (relation "measure (\<lambda>(ops, st, M, s, i, m). nat s - i)") auto

declare dot_self_i.simps [simp del]

definition dot_self ::
  "('v, 'd) GenericVector \<Rightarrow> 'v store \<Rightarrow> MultiVector \<Rightarrow> 'd list \<Rightarrow> error + ('d list \<times> 'v store)" where
  "dot_self ops st M m = dot_self_i ops st M (int_of_size (length (mv M))) 0 m"

text \<open>
  \<open>MultiVector::dot(const MultiVector & other, Array<double> & m)\<close>: the inner loop of the
  general case, the outer loop, and the method with its test of identity.
\<close>

fun dot_row ::
  "('v, 'd) GenericVector \<Rightarrow> 'v store \<Rightarrow> addr \<Rightarrow> addr list \<Rightarrow> nat \<Rightarrow> 'd list
     \<Rightarrow> error + (nat \<times> 'd list \<times> 'v store)" where
  "dot_row ops st vi [] data m = Inr (data, m, st)"
| "dot_row ops st vi (vj # rest) data m =
     (case vec_inner ops st vi vj of Inl e \<Rightarrow> Inl e
      | Inr (x, st1) \<Rightarrow>
     (case array_set m data x of Inl e \<Rightarrow> Inl e
      | Inr m1 \<Rightarrow> dot_row ops st1 vi rest (Suc data) m1))"

fun dot_rows ::
  "('v, 'd) GenericVector \<Rightarrow> 'v store \<Rightarrow> addr list \<Rightarrow> addr list \<Rightarrow> nat \<Rightarrow> 'd list
     \<Rightarrow> error + ('d list \<times> 'v store)" where
  "dot_rows ops st [] others data m = Inr (m, st)"
| "dot_rows ops st (vi # rest) others data m =
     (case dot_row ops st vi others data m of Inl e \<Rightarrow> Inl e
      | Inr (data1, m1, st1) \<Rightarrow> dot_rows ops st1 rest others data1 m1)"

definition dot_MultiVector ::
  "('v, 'd) GenericVector \<Rightarrow> 'v store \<Rightarrow> MultiVector \<Rightarrow> MultiVector \<Rightarrow> 'd list
     \<Rightarrow> error + ('d list \<times> 'v store)" where
  "dot_MultiVector ops st M other m =
     (if mv_begin other = mv_begin M then dot_self ops st M m
      else dot_rows ops st (mv M) (mv other) 0 m)"

subsection \<open>Linear combinations, scaling and norms\<close>

text \<open>\<open>MultiVector::reduce(GenericVector & v, const Array<double> & alpha)\<close>\<close>

fun reduce_loop ::
  "('v, 'd) GenericVector \<Rightarrow> 'v store \<Rightarrow> addr list \<Rightarrow> addr \<Rightarrow> nat \<Rightarrow> 'd list
     \<Rightarrow> error + 'v store" where
  "reduce_loop ops st [] v data alpha = Inr st"
| "reduce_loop ops st (vi # rest) v data alpha =
     (case array_get alpha data of Inl e \<Rightarrow> Inl e
      | Inr a \<Rightarrow>
     (case vec_axpy ops st v a vi of Inl e \<Rightarrow> Inl e
      | Inr st1 \<Rightarrow> reduce_loop ops st1 rest v (Suc data) alpha))"

definition reduce ::
  "('v, 'd) GenericVector \<Rightarrow> 'v store \<Rightarrow> MultiVector \<Rightarrow> addr \<Rightarrow> 'd list \<Rightarrow> error + 'v store" where
  "reduce ops st M v alpha = reduce_loop ops st (mv M) v 0 alpha"

text \<open>\<open>MultiVector::axpy(double a, const GenericVector & y)\<close>\<close>

fun axpy_loop ::
  "('v, 'd) GenericVector \<Rightarrow> 'v store \<Rightarrow> addr list \<Rightarrow> 'd \<Rightarrow> addr \<Rightarrow> error + 'v store" where
  "axpy_loop ops st [] a y = Inr st"
| "axpy_loop ops st (vi # rest) a y =
     (case vec_axpy ops st vi a y of Inl e \<Rightarrow> Inl e
      | Inr st1 \<Rightarrow> axpy_loop ops st1 rest a y)"

definition axpy_GenericVector ::
  "('v, 'd) GenericVector \<Rightarrow> 'v store \<Rightarrow> MultiVector \<Rightarrow> 'd \<Rightarrow> addr
     \<Rightarrow> error + (MultiVector \<times> 'v store)" where
  "axpy_GenericVector ops st M a y =
     (case axpy_loop ops st (mv M) a y of Inl e \<Rightarrow> Inl e | Inr st1 \<Rightarrow> Inr (M, st1))"

text \<open>\<open>MultiVector::axpy(const Array<double> & a, const MultiVector & y)\<close>\<close>

function axpy_slices ::
  "('v, 'd) GenericVector \<Rightarrow> 'v store \<Rightarrow> MultiVector \<Rightarrow> 'd list \<Rightarrow> MultiVector \<Rightarrow> int \<Rightarrow> nat
     \<Rightarrow> error + 'v store" where
  "axpy_slices ops st M a y n i =
     (if int i < n then
        (case slot M (int i) of Inl e \<Rightarrow> Inl e
         | Inr vi \<Rightarrow>
        (case array_get a i of Inl e \<Rightarrow> Inl e
         | Inr ai \<Rightarrow>
        (case slot y (int i) of Inl e \<Rightarrow> Inl e
         | Inr yi \<Rightarrow>
        (case vec_axpy ops st vi ai yi of Inl e \<Rightarrow> Inl e
         | Inr st1 \<Rightarrow> axpy_slices ops st1 M a y n (Suc i)))))
      else Inr st)"
  by pat_completeness auto
termination
  by (relation "measure (\<lambda>(ops, st, M, a, y, n, i). nat n - i)") auto

declare axpy_slices.simps [simp del]

text \<open>
  In \<open>a.size() == n\<close> the \<open>int\<close> is converted to the unsigned 64-bit \<open>std::size_t\<close> of the
  left-hand side.
\<close>

definition size_of_int :: "int \<Rightarrow> nat" where
  "size_of_int n = nat (n mod 2 ^ 64)"

definition axpy_MultiVector ::
  "('v, 'd) GenericVector \<Rightarrow> 'v store \<Rightarrow> MultiVector \<Rightarrow> 'd list \<Rightarrow> MultiVector
     \<Rightarrow> error + (MultiVector \<times> 'v store)" where
  "axpy_MultiVector ops st M a y =
     (let n = nvec M in
      if length a \<noteq> size_of_int n then Inl AssertionFailed
      else if nvec y \<noteq> n then Inl AssertionFailed
      else (case axpy_slices ops st M a y n 0 of Inl e \<Rightarrow> Inl e | Inr st1 \<Rightarrow> Inr (M, st1)))"

text \<open>\<open>MultiVector::scale(int k, double a)\<close>\<close>

definition scale_int ::
  "('v, 'd) GenericVector \<Rightarrow> 'v store \<Rightarrow> MultiVector \<Rightarrow> int \<Rightarrow> 'd
     \<Rightarrow> error + (MultiVector \<times> 'v store)" where
  "scale_int ops st M k a =
     (case slot M k of Inl e \<Rightarrow> Inl e
      | Inr vk \<Rightarrow>
     (case vec_scale ops st vk a of Inl e \<Rightarrow> Inl e | Inr st1 \<Rightarrow> Inr (M, st1)))"

text \<open>\<open>MultiVector::scale(const Array<double> & a)\<close>\<close>

fun scale_loop ::
  "('v, 'd) GenericVector \<Rightarrow> 'v store \<Rightarrow> addr list \<Rightarrow> nat \<Rightarrow> 'd list \<Rightarrow> error + 'v store" where
  "scale_loop ops st [] data a = Inr st"
| "scale_loop ops st (vj # rest) data a =
     (case array_get a data of Inl e \<Rightarrow> Inl e
      | Inr aj \<Rightarrow>
     (case vec_scale ops st vj aj of Inl e \<Rightarrow> Inl e
      | Inr st1 \<Rightarrow> scale_loop ops st1 rest (Suc data) a))"

definition scale_Array ::
  "('v, 'd) GenericVector \<Rightarrow> 'v store \<Rightarrow> MultiVector \<Rightarrow> 'd list
     \<Rightarrow> error + (MultiVector \<times> 'v store)" where
  "scale_Array ops st M a =
     (case scale_loop ops st (mv M) 0 a of Inl e \<Rightarrow> Inl e | Inr st1 \<Rightarrow> Inr (M, st1))"

text \<open>\<open>MultiVector::zero()\<close>\<close>

fun zero_loop :: "('v, 'd) GenericVector \<Rightarrow> 'v store \<Rightarrow> addr list \<Rightarrow> error + 'v store" where
  "zero_loop ops st [] = Inr st"
| "zero_loop ops st (vi # rest) =
     (case vec_zero ops st vi of Inl e \<Rightarrow> Inl e | Inr st1 \<Rightarrow> zero_loop ops st1 rest)"

definition zero_all ::
  "('v, 'd) GenericVector \<Rightarrow> 'v store \<Rightarrow> MultiVector \<Rightarrow> error + (MultiVector \<times> 'v store)" where
  "zero_all ops st M =
     (case zero_loop ops st (mv M) of Inl e \<Rightarrow> Inl e | Inr st1 \<Rightarrow> Inr (M, st1))"

text \<open>\<open>MultiVector::norm_all(const std::string norm_type, Array<double> & norms)\<close>\<close>

fun norm_loop ::
  "('v, 'd) GenericVector \<Rightarrow> 'v store \<Rightarrow> addr list \<Rightarrow> string \<Rightarrow> nat \<Rightarrow> 'd list
     \<Rightarrow> error + 'd list" where
  "norm_loop ops st [] norm_type data norms = Inr norms"
| "norm_loop ops st (vi # rest) norm_type data norms =
     (case vec_norm ops st norm_type vi of Inl e \<Rightarrow> Inl e
      | Inr x \<Rightarrow>
     (case array_set norms data x of Inl e \<Rightarrow> Inl e
      | Inr norms1 \<Rightarrow> norm_loop ops st rest norm_type (Suc data) norms1))"

definition norm_all ::
  "('v, 'd) GenericVector \<Rightarrow> 'v store \<Rightarrow> MultiVector \<Rightarrow> string \<Rightarrow> 'd list \<Rightarrow> error + 'd list" where
  "norm_all ops st M norm_type norms = norm_loop ops st (mv M) norm_type 0 norms"

text \<open>\<open>MultiVector::swap(MultiVector & other)\<close>: the two \<open>std::vector\<close>s exchange their buffers.\<close>

definition swap :: "MultiVector \<Rightarrow> MultiVector \<Rightarrow> MultiVector \<times> MultiVector" where
  "swap M other =
     (M\<lparr>mv_begin := mv_begin other, mv := mv other\<rparr>,
      other\<lparr>mv_begin := mv_begin M, mv := mv M\<rparr>)"

subsection \<open>An instance of the vector capability, and a store\<close>

text \<open>
  Vectors of dimension 2 over the integers, with integer scalars and the usual operations,
  to run the model on concrete inputs; a store of four such vectors; a MultiVector of the
  first two, another of the third alone, and another of the third and the fourth.
\<close>

definition int_pair_vectors :: "(int \<times> int, int) GenericVector" where
  "int_pair_vectors =
     \<lparr>gv_zero = (\<lambda>x. (0, 0)),
      gv_axpy = (\<lambda>a x y. (fst y + a * fst x, snd y + a * snd x)),
      gv_inner = (\<lambda>x y. fst x * fst y + snd x * snd y),
      gv_scale = (\<lambda>x a. (fst x * a, snd x * a)),
      gv_norm = (\<lambda>norm_type x.
         if norm_type = ''linf'' then max \<bar>fst x\<bar> \<bar>snd x\<bar> else \<bar>fst x\<bar> + \<bar>snd x\<bar>)\<rparr>"

definition example_store :: "(int \<times> int) store" where
  "example_store = \<lparr>vecs = [(1, 2), (3, 4), (5, 6), (7, 8)], bufs = 3, inner_calls = []\<rparr>"

definition example_mv :: MultiVector where
  "example_mv = \<lparr>mv_begin = 1, mv = [0, 1]\<rparr>"

definition example_other :: MultiVector where
  "example_other = \<lparr>mv_begin = 2, mv = [2]\<rparr>"

definition example_pair :: MultiVector where
  "example_pair = \<lparr>mv_begin = 3, mv = [2, 3]\<rparr>"

section \<open>Properties of the model\<close>

subsection \<open>Indices of a matrix stored flat\<close>

lemma idx_lt: "a < N \<Longrightarrow> b < N \<Longrightarrow> a + N * b < N * (N::nat)"
proof -
  assume a: "a < N" and b: "b < N"
  have "a + N * b < N + N * b" using a by simp
  also have "\<dots> = N * Suc b" by simp
  also have "\<dots> \<le> N * N" using b by (intro mult_le_mono2) simp
  finally show ?thesis .
qed

lemma idx_eq_iff: "a < N \<Longrightarrow> (k = a + N * b) = (k mod N = a \<and> k div N = (b::nat))"
  by (auto simp: mult.commute)

lemma nth_concat_rows:
  "k < length ps * length qs \<Longrightarrow>
   concat (map (\<lambda>p. map (f p) qs) ps) ! k = f (ps ! (k div length qs)) (qs ! (k mod length qs))"
proof (induction ps arbitrary: k)
  case Nil
  then show ?case by simp
next
  case (Cons p ps)
  let ?n = "length qs"
  have n: "0 < ?n" using Cons.prems by (cases "?n = 0") simp_all
  show ?case
  proof (cases "k < ?n")
    case True
    then show ?thesis by (simp add: nth_append)
  next
    case False
    then have ge: "?n \<le> k" by simp
    have lt: "k - ?n < length ps * ?n" using Cons.prems ge by simp
    have d: "k div ?n = Suc ((k - ?n) div ?n)" using n ge by (rule le_div_geq)
    have m: "k mod ?n = (k - ?n) mod ?n" using ge by (rule le_mod_geq)
    show ?thesis
      using False Cons.IH [OF lt] by (simp add: nth_append d m)
  qed
qed

lemma length_concat_rows: "length (concat (map (\<lambda>p. map (f p) qs) ps)) = length ps * length qs"
  by (induction ps) simp_all

lemma all_less_2: "(\<forall>i<2::nat. P i) = (P 0 \<and> P 1)"
  by (auto simp: numeral_2_eq_2 less_Suc_eq)

subsection \<open>The operations of the store and of arrays\<close>

lemma deref_valid: "p < length (vecs st) \<Longrightarrow> deref st p = Inr (vecs st ! p)"
  by (simp add: deref_def)

lemma vec_inner_valid:
  "x < length (vecs st) \<Longrightarrow> y < length (vecs st) \<Longrightarrow>
   vec_inner ops st x y =
     Inr (gv_inner ops (vecs st ! x) (vecs st ! y), st\<lparr>inner_calls := inner_calls st @ [(x, y)]\<rparr>)"
  by (simp add: vec_inner_def deref_valid)

lemma vec_axpy_valid:
  "x < length (vecs st) \<Longrightarrow> y < length (vecs st) \<Longrightarrow>
   vec_axpy ops st y a x =
     Inr (st\<lparr>vecs := (vecs st)[y := gv_axpy ops a (vecs st ! x) (vecs st ! y)]\<rparr>)"
  by (simp add: vec_axpy_def deref_valid)

lemma vec_norm_valid:
  "x < length (vecs st) \<Longrightarrow> vec_norm ops st t x = Inr (gv_norm ops t (vecs st ! x))"
  by (simp add: vec_norm_def deref_valid)

lemma array_set_in: "k < length m \<Longrightarrow> array_set m k x = Inr (m[k := x])"
  by (simp add: array_set_def)

lemma array_get_in: "k < length a \<Longrightarrow> array_get a k = Inr (a ! k)"
  by (simp add: array_get_def)

lemma slot_in: "i < length (mv M) \<Longrightarrow> slot M (int i) = Inr (mv M ! i)"
  by (simp add: slot_def)

lemma int_of_size_small: "int n \<le> INT_MAX \<Longrightarrow> int_of_size n = int n"
  unfolding int_of_size_def INT_MAX_def
  by (rule signed_take_bit_int_eq_self) simp_all

lemma int_of_size_0: "int_of_size 0 = 0"
  by (simp add: int_of_size_def)

lemma size_of_int_small: "int n \<le> INT_MAX \<Longrightarrow> size_of_int (int n) = n"
  by (simp add: size_of_int_def INT_MAX_def)

lemma array_index_eq:
  assumes "a < N" "b < N" "int (N * N) \<le> INT_MAX"
  shows "array_index (int a) (int N) (int b) = Inr (a + N * b)"
proof -
  have lt: "a + N * b < N * N" using assms by (simp add: idx_lt)
  have q: "int a + int N * int b = int (a + N * b)" and p: "int N * int b = int (N * b)"
    by simp_all
  have "int (a + N * b) \<le> INT_MAX" using lt assms(3) by linarith
  moreover have "int (N * b) \<le> INT_MAX" using lt assms(3) by linarith
  moreover have "0 \<le> INT_MAX" by (simp add: INT_MAX_def)
  moreover have "0 \<le> int (a + N * b)" "0 \<le> int (N * b)" by simp_all
  ultimately show ?thesis
    unfolding array_index_def q p by (simp add: not_less del: of_nat_add of_nat_mult)
qed

lemma take_Suc_update: "k < length m \<Longrightarrow> take (Suc k) (m[k := x]) = take k m @ [x]"
  by (simp add: take_Suc_conv_app_nth)

subsection \<open>The loops\<close>

lemma fill_slots_eq:
  "v < length (vecs st) \<Longrightarrow>
   fill_slots ops st v n =
     Inr ([length (vecs st)..<length (vecs st) + n],
          st\<lparr>vecs := vecs st @ replicate n (gv_zero ops (vecs st ! v))\<rparr>)"
proof (induction n arbitrary: st)
  case 0
  then show ?case by simp
next
  case (Suc n)
  let ?L = "length (vecs st)"
  let ?x = "vecs st ! v"
  let ?st2 = "st\<lparr>vecs := vecs st @ [gv_zero ops ?x]\<rparr>"
  have copy: "vec_copy st v = Inr (?L, st\<lparr>vecs := vecs st @ [?x]\<rparr>)"
    using Suc.prems by (simp add: vec_copy_def deref_valid)
  have zero: "vec_zero ops (st\<lparr>vecs := vecs st @ [?x]\<rparr>) ?L = Inr ?st2"
    by (simp add: vec_zero_def deref_def)
  have v2: "v < length (vecs ?st2)" using Suc.prems by simp
  have x2: "vecs ?st2 ! v = ?x" using Suc.prems by (simp add: nth_append)
  have rest: "fill_slots ops ?st2 v n =
      Inr ([Suc ?L..<Suc ?L + n], ?st2\<lparr>vecs := vecs ?st2 @ replicate n (gv_zero ops ?x)\<rparr>)"
    using Suc.IH [OF v2] x2 by simp
  have upt: "?L # [Suc ?L..<Suc ?L + n] = [?L..<?L + Suc n]"
    by (simp add: upt_conv_Cons)
  show ?case
    using copy zero rest upt by (simp add: replicate_append_same)
qed

lemma dot_vec_loop_eq:
  "\<forall>p\<in>set ps. p < length (vecs st) \<Longrightarrow> v < length (vecs st) \<Longrightarrow> im + length ps \<le> length m \<Longrightarrow>
   dot_vec_loop ops st ps v im m =
     Inr (take im m @ map (\<lambda>p. gv_inner ops (vecs st ! p) (vecs st ! v)) ps
            @ drop (im + length ps) m,
          st\<lparr>inner_calls := inner_calls st @ map (\<lambda>p. (p, v)) ps\<rparr>)"
proof (induction ps arbitrary: st im m)
  case Nil
  then show ?case by simp
next
  case (Cons p ps)
  let ?x = "gv_inner ops (vecs st ! p) (vecs st ! v)"
  let ?st1 = "st\<lparr>inner_calls := inner_calls st @ [(p, v)]\<rparr>"
  have im: "im < length m" using Cons.prems by simp
  have step: "dot_vec_loop ops st (p # ps) v im m = dot_vec_loop ops ?st1 ps v (Suc im) (m[im := ?x])"
    using Cons.prems im by (simp add: vec_inner_valid array_set_in)
  have "dot_vec_loop ops ?st1 ps v (Suc im) (m[im := ?x]) =
     Inr (take (Suc im) (m[im := ?x]) @ map (\<lambda>p. gv_inner ops (vecs ?st1 ! p) (vecs ?st1 ! v)) ps
            @ drop (Suc im + length ps) (m[im := ?x]),
          ?st1\<lparr>inner_calls := inner_calls ?st1 @ map (\<lambda>p. (p, v)) ps\<rparr>)"
    using Cons.prems by (intro Cons.IH) simp_all
  then show ?case
    using step im by (simp add: take_Suc_update)
qed

lemma norm_loop_eq:
  "\<forall>p\<in>set ps. p < length (vecs st) \<Longrightarrow> data + length ps \<le> length norms \<Longrightarrow>
   norm_loop ops st ps t data norms =
     Inr (take data norms @ map (\<lambda>p. gv_norm ops t (vecs st ! p)) ps
            @ drop (data + length ps) norms)"
proof (induction ps arbitrary: data norms)
  case Nil
  then show ?case by simp
next
  case (Cons p ps)
  let ?x = "gv_norm ops t (vecs st ! p)"
  have d: "data < length norms" using Cons.prems by simp
  have step: "norm_loop ops st (p # ps) t data norms = norm_loop ops st ps t (Suc data) (norms[data := ?x])"
    using Cons.prems d by (simp add: vec_norm_valid array_set_in)
  have "norm_loop ops st ps t (Suc data) (norms[data := ?x]) =
     Inr (take (Suc data) (norms[data := ?x]) @ map (\<lambda>p. gv_norm ops t (vecs st ! p)) ps
            @ drop (Suc data + length ps) (norms[data := ?x]))"
    using Cons.prems by (intro Cons.IH) simp_all
  then show ?case
    using step d by (simp add: take_Suc_update)
qed

lemma dot_row_eq:
  "\<forall>q\<in>set qs. q < length (vecs st) \<Longrightarrow> p < length (vecs st) \<Longrightarrow> data + length qs \<le> length m \<Longrightarrow>
   dot_row ops st p qs data m =
     Inr (data + length qs,
          take data m @ map (\<lambda>q. gv_inner ops (vecs st ! p) (vecs st ! q)) qs
            @ drop (data + length qs) m,
          st\<lparr>inner_calls := inner_calls st @ map (\<lambda>q. (p, q)) qs\<rparr>)"
proof (induction qs arbitrary: st data m)
  case Nil
  then show ?case by simp
next
  case (Cons q qs)
  let ?x = "gv_inner ops (vecs st ! p) (vecs st ! q)"
  let ?st1 = "st\<lparr>inner_calls := inner_calls st @ [(p, q)]\<rparr>"
  have d: "data < length m" using Cons.prems by simp
  have step: "dot_row ops st p (q # qs) data m = dot_row ops ?st1 p qs (Suc data) (m[data := ?x])"
    using Cons.prems d by (simp add: vec_inner_valid array_set_in)
  have "dot_row ops ?st1 p qs (Suc data) (m[data := ?x]) =
     Inr (Suc data + length qs,
          take (Suc data) (m[data := ?x]) @ map (\<lambda>q. gv_inner ops (vecs ?st1 ! p) (vecs ?st1 ! q)) qs
            @ drop (Suc data + length qs) (m[data := ?x]),
          ?st1\<lparr>inner_calls := inner_calls ?st1 @ map (\<lambda>q. (p, q)) qs\<rparr>)"
    using Cons.prems by (intro Cons.IH) simp_all
  then show ?case
    using step d by (simp add: take_Suc_update)
qed

lemma dot_rows_eq:
  "\<forall>p\<in>set ps. p < length (vecs st) \<Longrightarrow> \<forall>q\<in>set qs. q < length (vecs st) \<Longrightarrow>
   data + length ps * length qs \<le> length m \<Longrightarrow>
   dot_rows ops st ps qs data m =
     Inr (take data m
            @ concat (map (\<lambda>p. map (\<lambda>q. gv_inner ops (vecs st ! p) (vecs st ! q)) qs) ps)
            @ drop (data + length ps * length qs) m,
          st\<lparr>inner_calls := inner_calls st @ concat (map (\<lambda>p. map (\<lambda>q. (p, q)) qs) ps)\<rparr>)"
proof (induction ps arbitrary: st data m)
  case Nil
  then show ?case by simp
next
  case (Cons p ps)
  let ?row = "map (\<lambda>q. gv_inner ops (vecs st ! p) (vecs st ! q)) qs"
  let ?m1 = "take data m @ ?row @ drop (data + length qs) m"
  let ?st1 = "st\<lparr>inner_calls := inner_calls st @ map (\<lambda>q. (p, q)) qs\<rparr>"
  have le: "data + length qs \<le> length m" using Cons.prems by simp
  have row: "dot_row ops st p qs data m = Inr (data + length qs, ?m1, ?st1)"
    using Cons.prems le by (intro dot_row_eq) simp_all
  have len1: "length ?m1 = length m" using le by simp
  have "dot_rows ops ?st1 ps qs (data + length qs) ?m1 =
     Inr (take (data + length qs) ?m1
            @ concat (map (\<lambda>p. map (\<lambda>q. gv_inner ops (vecs ?st1 ! p) (vecs ?st1 ! q)) qs) ps)
            @ drop (data + length qs + length ps * length qs) ?m1,
          ?st1\<lparr>inner_calls := inner_calls ?st1 @ concat (map (\<lambda>p. map (\<lambda>q. (p, q)) qs) ps)\<rparr>)"
    using Cons.prems len1 by (intro Cons.IH) simp_all
  moreover have "take (data + length qs) ?m1 = take data m @ ?row"
    using le by simp
  moreover have "drop (data + length qs + length ps * length qs) ?m1
      = drop (data + length (p # ps) * length qs) m"
    using le by (simp add: ac_simps)
  ultimately show ?case
    using row by simp
qed

lemma dot_self_j_eq:
  assumes valid: "\<forall>p\<in>set (mv M). p < length xs"
    and N: "N = length (mv M)"
    and ov: "int (N * N) \<le> INT_MAX"
    and cap: "N * N \<le> length m"
    and i: "i < N" and j: "j \<le> i"
    and st: "vecs st = xs"
  shows "\<exists>m'. dot_self_j ops st M (int N) i j m =
           Inr (m', st\<lparr>inner_calls := inner_calls st @ map (\<lambda>b. (mv M ! i, mv M ! b)) [j..<i]\<rparr>)
         \<and> length m' = length m
         \<and> (\<forall>k<length m. m' ! k =
              (if k mod N = i \<and> j \<le> k div N \<and> k div N < i
                 then gv_inner ops (xs ! (mv M ! i)) (xs ! (mv M ! (k div N)))
               else if k div N = i \<and> j \<le> k mod N \<and> k mod N < i
                 then gv_inner ops (xs ! (mv M ! i)) (xs ! (mv M ! (k mod N)))
               else m ! k))"
  using cap j st
proof (induction d \<equiv> "i - j" arbitrary: j m st)
  case 0
  then have "j = i" by simp
  then show ?case by (subst dot_self_j.simps) auto
next
  case (Suc d)
  then have ji: "j < i" by simp
  then have jN: "j < N" using i by simp
  let ?x = "gv_inner ops (xs ! (mv M ! i)) (xs ! (mv M ! j))"
  let ?st1 = "st\<lparr>inner_calls := inner_calls st @ [(mv M ! i, mv M ! j)]\<rparr>"
  let ?k1 = "j + N * i" and ?k2 = "i + N * j"
  let ?m2 = "m[?k1 := ?x, ?k2 := ?x]"
  have pi: "mv M ! i < length xs" using valid i N by simp
  have pj: "mv M ! j < length xs" using valid jN N by simp
  have k1: "?k1 < length m" using idx_lt [OF jN i] Suc.prems(1) by simp
  have k2: "?k2 < length m" using idx_lt [OF i jN] Suc.prems(1) by simp
  have step: "dot_self_j ops st M (int N) i j m = dot_self_j ops ?st1 M (int N) i (Suc j) ?m2"
    apply (subst dot_self_j.simps)
    using ji i jN N pi pj k1 k2 Suc.prems(3) ov
    by (simp add: slot_in vec_inner_valid array_index_eq array_set_in)
  have "\<exists>m'. dot_self_j ops ?st1 M (int N) i (Suc j) ?m2 =
           Inr (m', ?st1\<lparr>inner_calls := inner_calls ?st1 @ map (\<lambda>b. (mv M ! i, mv M ! b)) [Suc j..<i]\<rparr>)
         \<and> length m' = length ?m2
         \<and> (\<forall>k<length ?m2. m' ! k =
              (if k mod N = i \<and> Suc j \<le> k div N \<and> k div N < i
                 then gv_inner ops (xs ! (mv M ! i)) (xs ! (mv M ! (k div N)))
               else if k div N = i \<and> Suc j \<le> k mod N \<and> k mod N < i
                 then gv_inner ops (xs ! (mv M ! i)) (xs ! (mv M ! (k mod N)))
               else ?m2 ! k))"
    using Suc.hyps(2) Suc.prems ji by (intro Suc.hyps(1)) simp_all
  then obtain m' where
    run: "dot_self_j ops ?st1 M (int N) i (Suc j) ?m2 =
           Inr (m', ?st1\<lparr>inner_calls := inner_calls ?st1 @ map (\<lambda>b. (mv M ! i, mv M ! b)) [Suc j..<i]\<rparr>)"
    and len: "length m' = length m"
    and vals: "\<And>k. k < length m \<Longrightarrow> m' ! k =
              (if k mod N = i \<and> Suc j \<le> k div N \<and> k div N < i
                 then gv_inner ops (xs ! (mv M ! i)) (xs ! (mv M ! (k div N)))
               else if k div N = i \<and> Suc j \<le> k mod N \<and> k mod N < i
                 then gv_inner ops (xs ! (mv M ! i)) (xs ! (mv M ! (k mod N)))
               else ?m2 ! k)"
    by auto
  have m2: "?m2 ! k =
      (if k mod N = i \<and> k div N = j then ?x else if k mod N = j \<and> k div N = i then ?x else m ! k)"
    if k: "k < length m" for k
  proof -
    have "?m2 ! k = (if k = ?k2 then ?x else if k = ?k1 then ?x else m ! k)"
      using k by (auto simp: nth_list_update)
    then show ?thesis
      unfolding idx_eq_iff [OF i] idx_eq_iff [OF jN] .
  qed
  have calls: "map (\<lambda>b. (mv M ! i, mv M ! b)) [j..<i]
      = (mv M ! i, mv M ! j) # map (\<lambda>b. (mv M ! i, mv M ! b)) [Suc j..<i]"
    using ji by (simp add: upt_conv_Cons)
  have "m' ! k =
              (if k mod N = i \<and> j \<le> k div N \<and> k div N < i
                 then gv_inner ops (xs ! (mv M ! i)) (xs ! (mv M ! (k div N)))
               else if k div N = i \<and> j \<le> k mod N \<and> k mod N < i
                 then gv_inner ops (xs ! (mv M ! i)) (xs ! (mv M ! (k mod N)))
               else m ! k)" if k: "k < length m" for k
  proof -
    define a where "a = k mod N"
    define b where "b = k div N"
    have v: "m' ! k =
              (if a = i \<and> Suc j \<le> b \<and> b < i
                 then gv_inner ops (xs ! (mv M ! i)) (xs ! (mv M ! b))
               else if b = i \<and> Suc j \<le> a \<and> a < i
                 then gv_inner ops (xs ! (mv M ! i)) (xs ! (mv M ! a))
               else ?m2 ! k)"
      using vals [OF k] by (simp only: a_def b_def)
    have w: "?m2 ! k = (if a = i \<and> b = j then ?x else if a = j \<and> b = i then ?x else m ! k)"
      using m2 [OF k] by (simp only: a_def b_def)
    show ?thesis
      unfolding a_def [symmetric] b_def [symmetric] v w using ji by auto
  qed
  then show ?case
    using step run len calls by simp
qed

lemma dot_self_i_eq:
  assumes valid: "\<forall>p\<in>set (mv M). p < length xs"
    and N: "N = length (mv M)"
    and ov: "int (N * N) \<le> INT_MAX"
    and cap: "N * N \<le> length m"
    and i: "i \<le> N"
    and st: "vecs st = xs"
  shows "\<exists>m'. dot_self_i ops st M (int N) i m =
           Inr (m', st\<lparr>inner_calls := inner_calls st
                  @ concat (map (\<lambda>a. (mv M ! a, mv M ! a) # map (\<lambda>b. (mv M ! a, mv M ! b)) [0..<a])
                      [i..<N])\<rparr>)
         \<and> length m' = length m
         \<and> (\<forall>k<length m. m' ! k =
              (if k div N < N \<and> i \<le> max (k mod N) (k div N)
                 then gv_inner ops (xs ! (mv M ! max (k mod N) (k div N)))
                        (xs ! (mv M ! min (k mod N) (k div N)))
               else m ! k))"
  using cap i st
proof (induction d \<equiv> "N - i" arbitrary: i m st)
  case 0
  then have "i = N" by simp
  moreover have "\<not> (k div N < N \<and> N \<le> max (k mod N) (k div N))" for k
  proof (cases "N = 0")
    case True
    then show ?thesis by simp
  next
    case False
    then have "k mod N < N" by simp
    then show ?thesis by (auto simp: max_def)
  qed
  ultimately show ?case by (subst dot_self_i.simps) auto
next
  case (Suc d)
  then have iN: "i < N" by simp
  let ?F = "\<lambda>a. (mv M ! a, mv M ! a) # map (\<lambda>b. (mv M ! a, mv M ! b)) [0..<a]"
  let ?G = "\<lambda>a b. gv_inner ops (xs ! (mv M ! a)) (xs ! (mv M ! b))"
  let ?st1 = "st\<lparr>inner_calls := inner_calls st @ [(mv M ! i, mv M ! i)]\<rparr>"
  let ?m1 = "m[i + N * i := ?G i i]"
  have pi: "mv M ! i < length xs" using valid iN N by simp
  have kd: "i + N * i < length m" using idx_lt [OF iN iN] Suc.prems(1) by simp
  have cap1: "N * N \<le> length ?m1" using Suc.prems(1) by simp
  have st1: "vecs ?st1 = xs" using Suc.prems(3) by simp
  obtain m2 where
    row: "dot_self_j ops ?st1 M (int N) i 0 ?m1 =
            Inr (m2, ?st1\<lparr>inner_calls := inner_calls ?st1 @ map (\<lambda>b. (mv M ! i, mv M ! b)) [0..<i]\<rparr>)"
    and len2: "length m2 = length ?m1"
    and vals2: "\<And>k. k < length ?m1 \<Longrightarrow> m2 ! k =
              (if k mod N = i \<and> 0 \<le> k div N \<and> k div N < i then ?G i (k div N)
               else if k div N = i \<and> 0 \<le> k mod N \<and> k mod N < i then ?G i (k mod N)
               else ?m1 ! k)"
    using dot_self_j_eq [OF valid N ov cap1 iN le0 st1, of ops] by blast
  let ?st2 = "?st1\<lparr>inner_calls := inner_calls ?st1 @ map (\<lambda>b. (mv M ! i, mv M ! b)) [0..<i]\<rparr>"
  have step: "dot_self_i ops st M (int N) i m = dot_self_i ops ?st2 M (int N) (Suc i) m2"
    apply (subst dot_self_i.simps)
    using iN N pi kd Suc.prems(3) ov row
    by (simp add: slot_in vec_inner_valid array_index_eq array_set_in)
  have "\<exists>m'. dot_self_i ops ?st2 M (int N) (Suc i) m2 =
           Inr (m', ?st2\<lparr>inner_calls := inner_calls ?st2 @ concat (map ?F [Suc i..<N])\<rparr>)
         \<and> length m' = length m2
         \<and> (\<forall>k<length m2. m' ! k =
              (if k div N < N \<and> Suc i \<le> max (k mod N) (k div N)
                 then ?G (max (k mod N) (k div N)) (min (k mod N) (k div N))
               else m2 ! k))"
    using Suc.hyps(2) Suc.prems iN len2 by (intro Suc.hyps(1)) simp_all
  then obtain m' where
    run: "dot_self_i ops ?st2 M (int N) (Suc i) m2 =
           Inr (m', ?st2\<lparr>inner_calls := inner_calls ?st2 @ concat (map ?F [Suc i..<N])\<rparr>)"
    and len: "length m' = length m"
    and vals: "\<And>k. k < length m \<Longrightarrow> m' ! k =
              (if k div N < N \<and> Suc i \<le> max (k mod N) (k div N)
                 then ?G (max (k mod N) (k div N)) (min (k mod N) (k div N))
               else m2 ! k)"
    using len2 by auto
  have calls: "concat (map ?F [i..<N]) = ?F i @ concat (map ?F [Suc i..<N])"
    using iN by (simp add: upt_conv_Cons)
  have "m' ! k =
              (if k div N < N \<and> i \<le> max (k mod N) (k div N)
                 then ?G (max (k mod N) (k div N)) (min (k mod N) (k div N))
               else m ! k)" if k: "k < length m" for k
  proof -
    define a where "a = k mod N"
    define b where "b = k div N"
    have aN: "a < N" using iN by (simp add: a_def)
    have v: "m' ! k =
              (if b < N \<and> Suc i \<le> max a b then ?G (max a b) (min a b) else m2 ! k)"
      using vals [OF k] by (simp only: a_def b_def)
    have w: "m2 ! k =
              (if a = i \<and> 0 \<le> b \<and> b < i then ?G i b
               else if b = i \<and> 0 \<le> a \<and> a < i then ?G i a
               else ?m1 ! k)"
      using vals2 [of k] k by (simp only: a_def b_def length_list_update)
    have "?m1 ! k = (if k = i + N * i then ?G i i else m ! k)"
      using k by (auto simp: nth_list_update)
    then have u: "?m1 ! k = (if a = i \<and> b = i then ?G i i else m ! k)"
      unfolding idx_eq_iff [OF iN] by (simp only: a_def b_def)
    show ?thesis
      unfolding a_def [symmetric] b_def [symmetric] v w u using iN aN
      by (auto simp: max_def min_def)
  qed
  then show ?case
    using step run len calls by simp
qed

lemma dot_self_eq:
  assumes N: "N = length (mv M)"
    and valid: "\<forall>p\<in>set (mv M). p < length (vecs st)"
    and ov: "int (N * N) \<le> INT_MAX"
    and cap: "N * N \<le> length m"
  shows "\<exists>m'. dot_self ops st M m =
           Inr (m', st\<lparr>inner_calls := inner_calls st
                  @ concat (map (\<lambda>a. (mv M ! a, mv M ! a) # map (\<lambda>b. (mv M ! a, mv M ! b)) [0..<a])
                      [0..<N])\<rparr>)
         \<and> length m' = length m
         \<and> (\<forall>k<length m. m' ! k =
              (if k < N * N
                 then gv_inner ops (vecs st ! (mv M ! max (k mod N) (k div N)))
                        (vecs st ! (mv M ! min (k mod N) (k div N)))
               else m ! k))"
proof -
  have "N \<le> N * N" by (cases N) simp_all
  then have "int N \<le> INT_MAX" using ov by linarith
  then have s: "int_of_size (length (mv M)) = int N"
    using N by (simp add: int_of_size_small)
  have lt: "(k div N < N \<and> 0 \<le> max (k mod N) (k div N)) = (k < N * N)" for k
    by (cases "N = 0") (simp_all add: div_less_iff_less_mult)
  show ?thesis
    using dot_self_i_eq [OF valid N ov cap le0 refl, of ops]
    unfolding dot_self_def s lt .
qed

lemma reduce_loop_eq:
  "\<forall>p\<in>set ps. p < length (vecs st) \<and> p \<noteq> v \<Longrightarrow> v < length (vecs st) \<Longrightarrow>
   data + length ps \<le> length alpha \<Longrightarrow>
   reduce_loop ops st ps v data alpha =
     Inr (st\<lparr>vecs := (vecs st)[v :=
            foldl (\<lambda>acc (a, x). gv_axpy ops a x acc) (vecs st ! v)
              (zip (drop data alpha) (map (\<lambda>p. vecs st ! p) ps))]\<rparr>)"
proof (induction ps arbitrary: st data)
  case Nil
  then show ?case by simp
next
  case (Cons p ps)
  let ?f = "\<lambda>acc (a, x). gv_axpy ops a x acc"
  let ?y = "gv_axpy ops (alpha ! data) (vecs st ! p) (vecs st ! v)"
  let ?st1 = "st\<lparr>vecs := (vecs st)[v := ?y]\<rparr>"
  have d: "data < length alpha" using Cons.prems by simp
  have step: "reduce_loop ops st (p # ps) v data alpha = reduce_loop ops ?st1 ps v (Suc data) alpha"
    using Cons.prems d by (simp add: array_get_in vec_axpy_valid)
  have same: "map (\<lambda>p. vecs ?st1 ! p) ps = map (\<lambda>p. vecs st ! p) ps"
    using Cons.prems by (intro map_cong) auto
  have ih: "reduce_loop ops ?st1 ps v (Suc data) alpha =
     Inr (?st1\<lparr>vecs := (vecs ?st1)[v :=
            foldl ?f (vecs ?st1 ! v)
              (zip (drop (Suc data) alpha) (map (\<lambda>p. vecs ?st1 ! p) ps))]\<rparr>)"
    using Cons.prems by (intro Cons.IH) simp_all
  have v1: "vecs ?st1 ! v = ?y"
    using Cons.prems(2) by simp
  have upd: "?st1\<lparr>vecs := (vecs ?st1)[v := z]\<rparr> = st\<lparr>vecs := (vecs st)[v := z]\<rparr>" for z
    by simp
  have dr: "drop data alpha = alpha ! data # drop (Suc data) alpha"
    using d by (simp add: Cons_nth_drop_Suc)
  have fold: "foldl ?f (vecs st ! v) (zip (drop data alpha) (map (\<lambda>p. vecs st ! p) (p # ps)))
      = foldl ?f ?y (zip (drop (Suc data) alpha) (map (\<lambda>p. vecs st ! p) ps))"
    by (subst dr) simp
  show ?case
    unfolding step ih same v1 upd fold ..
qed

lemma foldl_axpy_zeros:
  "\<forall>x y. f z x y = y \<Longrightarrow> foldl (\<lambda>acc (a, x). f a x acc) y (zip (replicate n z) xs) = y"
proof (induction xs arbitrary: n)
  case Nil
  then show ?case by simp
next
  case (Cons x xs)
  then show ?case by (cases n) simp_all
qed

lemma foldl_axpy_one_hot:
  "\<forall>x y. f z x y = y \<Longrightarrow> k < length xs \<Longrightarrow>
   foldl (\<lambda>acc (a, x). f a x acc) y (zip ((replicate (length xs) z)[k := c]) xs) = f c (xs ! k) y"
proof (induction xs arbitrary: k)
  case Nil
  then show ?case by simp
next
  case (Cons x xs)
  then show ?case by (cases k) (simp_all add: foldl_axpy_zeros)
qed

lemma axpy_slices_eq:
  assumes N: "N = length (mv M)" and Ny: "length (mv y) = N" and Na: "length a = N"
    and dist: "distinct (mv M)"
    and sep: "\<forall>i<N. \<forall>k<N. i \<noteq> k \<longrightarrow> mv y ! i \<noteq> mv M ! k"
    and validM: "\<forall>p\<in>set (mv M). p < L" and validy: "\<forall>q\<in>set (mv y). q < L"
    and i: "i \<le> N"
    and len: "length (vecs st) = L"
  shows "\<exists>st'. axpy_slices ops st M a y (int N) i = Inr st'
     \<and> length (vecs st') = L
     \<and> (\<forall>k. i \<le> k \<and> k < N \<longrightarrow>
           vecs st' ! (mv M ! k)
             = gv_axpy ops (a ! k) (vecs st ! (mv y ! k)) (vecs st ! (mv M ! k)))
     \<and> (\<forall>p. (\<forall>k. i \<le> k \<and> k < N \<longrightarrow> p \<noteq> mv M ! k) \<longrightarrow> vecs st' ! p = vecs st ! p)"
  using i len
proof (induction d \<equiv> "N - i" arbitrary: i st)
  case 0
  then have "i = N" by simp
  then show ?case using "0.prems" by (subst axpy_slices.simps) auto
next
  case (Suc d)
  then have iN: "i < N" by simp
  let ?P = "\<lambda>k. mv M ! k" and ?Q = "\<lambda>k. mv y ! k"
  let ?st1 = "st\<lparr>vecs := (vecs st)[?P i := gv_axpy ops (a ! i) (vecs st ! ?Q i) (vecs st ! ?P i)]\<rparr>"
  have pi: "?P i < length (vecs st)" using validM iN N Suc.prems(2) by simp
  have qi: "?Q i < length (vecs st)" using validy iN Ny Suc.prems(2) by simp
  have step: "axpy_slices ops st M a y (int N) i = axpy_slices ops ?st1 M a y (int N) (Suc i)"
    apply (subst axpy_slices.simps)
    using iN N Ny Na pi qi by (simp add: slot_in array_get_in vec_axpy_valid)
  have "\<exists>st'. axpy_slices ops ?st1 M a y (int N) (Suc i) = Inr st'
     \<and> length (vecs st') = L
     \<and> (\<forall>k. Suc i \<le> k \<and> k < N \<longrightarrow>
           vecs st' ! (?P k) = gv_axpy ops (a ! k) (vecs ?st1 ! ?Q k) (vecs ?st1 ! ?P k))
     \<and> (\<forall>p. (\<forall>k. Suc i \<le> k \<and> k < N \<longrightarrow> p \<noteq> ?P k) \<longrightarrow> vecs st' ! p = vecs ?st1 ! p)"
    using Suc.hyps(2) Suc.prems iN by (intro Suc.hyps(1)) simp_all
  then obtain st' where
    run: "axpy_slices ops ?st1 M a y (int N) (Suc i) = Inr st'"
    and len': "length (vecs st') = L"
    and upd: "\<And>k. Suc i \<le> k \<Longrightarrow> k < N \<Longrightarrow>
           vecs st' ! (?P k) = gv_axpy ops (a ! k) (vecs ?st1 ! ?Q k) (vecs ?st1 ! ?P k)"
    and frame: "\<And>p. (\<forall>k. Suc i \<le> k \<and> k < N \<longrightarrow> p \<noteq> ?P k) \<Longrightarrow> vecs st' ! p = vecs ?st1 ! p"
    by blast
  have neq: "?P k \<noteq> ?P i" if "k < N" "k \<noteq> i" for k
    using dist that iN N by (simp add: nth_eq_iff_index_eq)
  have at_i: "vecs st' ! ?P i = gv_axpy ops (a ! i) (vecs st ! ?Q i) (vecs st ! ?P i)"
  proof -
    have "\<forall>k. Suc i \<le> k \<and> k < N \<longrightarrow> ?P i \<noteq> ?P k"
      using neq by fastforce
    then have "vecs st' ! ?P i = vecs ?st1 ! ?P i" by (rule frame)
    then show ?thesis using pi by simp
  qed
  have later: "vecs st' ! ?P k = gv_axpy ops (a ! k) (vecs st ! ?Q k) (vecs st ! ?P k)"
    if "Suc i \<le> k" "k < N" for k
  proof -
    have "?Q k \<noteq> ?P i" using sep that iN by simp
    moreover have "?P k \<noteq> ?P i" using neq that by simp
    ultimately show ?thesis using upd [OF that] by simp
  qed
  have all: "\<forall>k. i \<le> k \<and> k < N \<longrightarrow>
           vecs st' ! (?P k) = gv_axpy ops (a ! k) (vecs st ! ?Q k) (vecs st ! ?P k)"
  proof (intro allI impI)
    fix k assume k: "i \<le> k \<and> k < N"
    show "vecs st' ! (?P k) = gv_axpy ops (a ! k) (vecs st ! ?Q k) (vecs st ! ?P k)"
    proof (cases "k = i")
      case True
      then show ?thesis using at_i by simp
    next
      case False
      then show ?thesis using later [of k] k by simp
    qed
  qed
  have rest: "\<forall>p. (\<forall>k. i \<le> k \<and> k < N \<longrightarrow> p \<noteq> ?P k) \<longrightarrow> vecs st' ! p = vecs st ! p"
  proof (intro allI impI)
    fix p assume p: "\<forall>k. i \<le> k \<and> k < N \<longrightarrow> p \<noteq> ?P k"
    then have "vecs st' ! p = vecs ?st1 ! p" by (intro frame) simp
    moreover have "p \<noteq> ?P i" using p iN by blast
    ultimately show "vecs st' ! p = vecs st ! p" by simp
  qed
  show ?case
    unfolding step using run len' all rest by blast
qed

section \<open>The claims\<close>

subsection \<open>C1: the Gram matrix of dot\_self\<close>

text \<open>
  Claim C1. For a MultiVector of \<open>N\<close> vectors, all of them in the store, and an array
  \<open>m\<close> of at least \<open>N * N\<close> entries (with \<open>N * N\<close> in the range of \<open>int\<close>, where the
  source computes the indices), \<open>dot_self\<close> returns an array that is symmetric,
  \<open>m'[i + N*j] = m'[j + N*i]\<close>; its diagonal entry \<open>i\<close> is the inner product of vector
  \<open>i\<close> with itself; for \<open>j < i\<close> both mirrored entries hold the inner product of vector
  \<open>i\<close> with vector \<open>j\<close>; and the inner products evaluated by the call are, for each
  \<open>i\<close> in order, the one of the pair \<open>(i, i)\<close> and then one for each pair \<open>(i, j)\<close>
  with \<open>j < i\<close>: a single evaluation for each unordered pair. No vector is changed.
\<close>

theorem dot_self_gram:
  assumes "N = length (mv M)"
    and "\<forall>p\<in>set (mv M). p < length (vecs st)"
    and "int (N * N) \<le> INT_MAX"
    and "N * N \<le> length m"
  shows "\<exists>m' st'. dot_self ops st M m = Inr (m', st')
      \<and> (\<forall>i<N. \<forall>j<N. m' ! (i + N * j) = m' ! (j + N * i))
      \<and> (\<forall>i<N. m' ! (i + N * i) = gv_inner ops (vecs st ! (mv M ! i)) (vecs st ! (mv M ! i)))
      \<and> (\<forall>i<N. \<forall>j<i.
            m' ! (i + N * j) = gv_inner ops (vecs st ! (mv M ! i)) (vecs st ! (mv M ! j))
          \<and> m' ! (j + N * i) = gv_inner ops (vecs st ! (mv M ! i)) (vecs st ! (mv M ! j)))
      \<and> inner_calls st' = inner_calls st
            @ concat (map (\<lambda>i. (mv M ! i, mv M ! i) # map (\<lambda>j. (mv M ! i, mv M ! j)) [0..<i])
                [0..<N])
      \<and> vecs st' = vecs st"
proof -
  let ?G = "\<lambda>a b. gv_inner ops (vecs st ! (mv M ! a)) (vecs st ! (mv M ! b))"
  obtain m' where
    run: "dot_self ops st M m =
           Inr (m', st\<lparr>inner_calls := inner_calls st
                  @ concat (map (\<lambda>a. (mv M ! a, mv M ! a) # map (\<lambda>b. (mv M ! a, mv M ! b)) [0..<a])
                      [0..<N])\<rparr>)"
    and vals: "\<And>k. k < length m \<Longrightarrow> m' ! k =
              (if k < N * N then ?G (max (k mod N) (k div N)) (min (k mod N) (k div N)) else m ! k)"
    using dot_self_eq [OF assms, of ops] by blast
  have entry: "m' ! (a + N * b) = ?G (max a b) (min a b)" if "a < N" "b < N" for a b
  proof -
    have "a + N * b < N * N" using that by (rule idx_lt)
    moreover have "(a + N * b) mod N = a" "(a + N * b) div N = b" using that by simp_all
    ultimately show ?thesis using vals [of "a + N * b"] assms(4) by simp
  qed
  have sym: "\<forall>i<N. \<forall>j<N. m' ! (i + N * j) = m' ! (j + N * i)"
    by (simp add: entry max.commute min.commute)
  have diag: "\<forall>i<N. m' ! (i + N * i) = ?G i i"
    by (simp add: entry)
  have off: "\<forall>i<N. \<forall>j<i. m' ! (i + N * j) = ?G i j \<and> m' ! (j + N * i) = ?G i j"
    by (simp add: entry max_def min_def)
  show ?thesis
    using run sym diag off by simp
qed

text \<open>
  The hypotheses of C1 hold for the MultiVector of the two vectors \<open>(1, 2)\<close> and
  \<open>(3, 4)\<close> and an array of five entries.
\<close>

theorem dot_self_gram_witness:
  "(2::nat) = length (mv example_mv)
   \<and> list_all (\<lambda>p. p < length (vecs example_store)) (mv example_mv)
   \<and> int (2 * 2) \<le> INT_MAX
   \<and> 2 * 2 \<le> length [0, 0, 0, 0, 9::int]
   \<and> (\<exists>m' st'. dot_self int_pair_vectors example_store example_mv [0, 0, 0, 0, 9] = Inr (m', st')
         \<and> m' ! (1 + 2 * 0) = m' ! (0 + 2 * 1)
         \<and> m' ! (1 + 2 * 0) = 11
         \<and> inner_calls st' = [(0, 0), (1, 1), (1, 0)])"
proof -
  have h1: "(2::nat) = length (mv example_mv)" by (simp add: example_mv_def)
  have h2: "\<forall>p\<in>set (mv example_mv). p < length (vecs example_store)"
    by (simp add: example_mv_def example_store_def)
  have h3: "int (2 * 2) \<le> INT_MAX" by (simp add: INT_MAX_def)
  have h4: "2 * 2 \<le> length [0, 0, 0, 0, 9::int]" by simp
  obtain m' st' where
    run: "dot_self int_pair_vectors example_store example_mv [0, 0, 0, 0, 9] = Inr (m', st')"
    and sym: "\<forall>i<2. \<forall>j<2. m' ! (i + 2 * j) = m' ! (j + 2 * i)"
    and off: "\<forall>i<2. \<forall>j<i. m' ! (i + 2 * j) =
        gv_inner int_pair_vectors (vecs example_store ! (mv example_mv ! i))
          (vecs example_store ! (mv example_mv ! j))
      \<and> m' ! (j + 2 * i) =
        gv_inner int_pair_vectors (vecs example_store ! (mv example_mv ! i))
          (vecs example_store ! (mv example_mv ! j))"
    and calls: "inner_calls st' = inner_calls example_store
        @ concat (map (\<lambda>i. (mv example_mv ! i, mv example_mv ! i)
                       # map (\<lambda>j. (mv example_mv ! i, mv example_mv ! j)) [0..<i]) [0..<2])"
    using dot_self_gram [OF h1 h2 h3 h4, of int_pair_vectors] by blast
  have "m' ! (1 + 2 * 0) = m' ! (0 + 2 * 1)"
    using sym by (simp add: all_less_2)
  moreover have "m' ! (1 + 2 * 0) = 11"
    using off by (simp add: all_less_2 example_mv_def example_store_def int_pair_vectors_def)
  moreover have "inner_calls st' = [(0, 0), (1, 1), (1, 0)]"
    using calls by (simp add: example_mv_def example_store_def numeral_2_eq_2)
  ultimately have concl:
    "\<exists>m' st'. dot_self int_pair_vectors example_store example_mv [0, 0, 0, 0, 9] = Inr (m', st')
         \<and> m' ! (1 + 2 * 0) = m' ! (0 + 2 * 1)
         \<and> m' ! (1 + 2 * 0) = 11
         \<and> inner_calls st' = [(0, 0), (1, 1), (1, 0)]"
    using run by blast
  have h2': "list_all (\<lambda>p. p < length (vecs example_store)) (mv example_mv)"
    using h2 by (simp add: list_all_iff)
  show ?thesis
    using h1 h2' h3 h4 concl by blast
qed

subsection \<open>C2: dot with the MultiVector itself\<close>

text \<open>
  Claim C2. When \<open>other\<close> has the buffer of the MultiVector itself (the test of
  identity of the source), \<open>dot\<close> is \<open>dot_self\<close>; and, the inner product of the vector
  capability being symmetric on the vectors of the MultiVector, the array that
  \<open>dot_self\<close> returns is the array that the two nested loops of the general case return
  on the same slots.
\<close>

theorem dot_identity_is_dot_self:
  assumes "N = length (mv M)"
    and "\<forall>p\<in>set (mv M). p < length (vecs st)"
    and "int (N * N) \<le> INT_MAX"
    and "N * N \<le> length m"
    and "mv_begin other = mv_begin M"
    and "\<forall>i<N. \<forall>j<N. gv_inner ops (vecs st ! (mv M ! i)) (vecs st ! (mv M ! j))
                     = gv_inner ops (vecs st ! (mv M ! j)) (vecs st ! (mv M ! i))"
  shows "dot_MultiVector ops st M other m = dot_self ops st M m
      \<and> (\<exists>m' st1 st2. dot_self ops st M m = Inr (m', st1)
            \<and> dot_rows ops st (mv M) (mv M) 0 m = Inr (m', st2))"
proof -
  let ?G = "\<lambda>a b. gv_inner ops (vecs st ! (mv M ! a)) (vecs st ! (mv M ! b))"
  let ?rows = "concat (map (\<lambda>p. map (\<lambda>q. gv_inner ops (vecs st ! p) (vecs st ! q)) (mv M)) (mv M))"
  obtain m' st1 where
    run: "dot_self ops st M m = Inr (m', st1)"
    and len: "length m' = length m"
    and vals: "\<And>k. k < length m \<Longrightarrow> m' ! k =
              (if k < N * N then ?G (max (k mod N) (k div N)) (min (k mod N) (k div N)) else m ! k)"
    using dot_self_eq [OF assms(1-4), of ops] by blast
  have general: "dot_rows ops st (mv M) (mv M) 0 m =
      Inr (?rows @ drop (N * N) m,
           st\<lparr>inner_calls := inner_calls st @ concat (map (\<lambda>p. map (\<lambda>q. (p, q)) (mv M)) (mv M))\<rparr>)"
    using dot_rows_eq [of "mv M" st "mv M" 0 m ops] assms(1,2,4) by simp
  have lrows: "length ?rows = N * N"
    using assms(1) by (simp add: length_concat_rows)
  have "m' = ?rows @ drop (N * N) m"
  proof (rule nth_equalityI)
    show "length m' = length (?rows @ drop (N * N) m)"
      using len lrows assms(4) by simp
  next
    fix k assume "k < length m'"
    then have k: "k < length m" using len by simp
    show "m' ! k = (?rows @ drop (N * N) m) ! k"
    proof (cases "k < N * N")
      case True
      then have N0: "0 < N" by (cases "N = 0") simp_all
      have a: "k mod N < N" using N0 by simp
      have b: "k div N < N" using True N0 by (simp add: div_less_iff_less_mult)
      have "?rows ! k = ?G (k div N) (k mod N)"
        using True assms(1) nth_concat_rows [of k "mv M" "mv M"] by simp
      moreover have "?G (max (k mod N) (k div N)) (min (k mod N) (k div N)) = ?G (k div N) (k mod N)"
        using assms(6) a b by (auto simp: max_def min_def)
      ultimately show ?thesis
        using True vals [OF k] lrows by (simp add: nth_append)
    next
      case False
      then show ?thesis
        using vals [OF k] lrows k by (simp add: nth_append)
    qed
  qed
  then show ?thesis
    using run general assms(5) by (simp add: dot_MultiVector_def)
qed

text \<open>
  The hypotheses of C2 hold for the MultiVector of \<open>(1, 2)\<close> and \<open>(3, 4)\<close> against
  itself.
\<close>

theorem dot_identity_is_dot_self_witness:
  "(2::nat) = length (mv example_mv)
   \<and> list_all (\<lambda>p. p < length (vecs example_store)) (mv example_mv)
   \<and> int (2 * 2) \<le> INT_MAX
   \<and> 2 * 2 \<le> length [0, 0, 0, 0, 9::int]
   \<and> mv_begin example_mv = mv_begin example_mv
   \<and> gv_inner int_pair_vectors (vecs example_store ! (mv example_mv ! 0))
          (vecs example_store ! (mv example_mv ! 1))
      = gv_inner int_pair_vectors (vecs example_store ! (mv example_mv ! 1))
          (vecs example_store ! (mv example_mv ! 0))
   \<and> dot_MultiVector int_pair_vectors example_store example_mv example_mv [0, 0, 0, 0, 9]
       = dot_self int_pair_vectors example_store example_mv [0, 0, 0, 0, 9]
   \<and> (\<exists>m' st1 st2.
         dot_self int_pair_vectors example_store example_mv [0, 0, 0, 0, 9] = Inr (m', st1)
       \<and> dot_rows int_pair_vectors example_store (mv example_mv) (mv example_mv) 0 [0, 0, 0, 0, 9]
           = Inr (m', st2))"
proof -
  have h1: "(2::nat) = length (mv example_mv)" by (simp add: example_mv_def)
  have h2: "\<forall>p\<in>set (mv example_mv). p < length (vecs example_store)"
    by (simp add: example_mv_def example_store_def)
  have h3: "int (2 * 2) \<le> INT_MAX" by (simp add: INT_MAX_def)
  have h4: "2 * 2 \<le> length [0, 0, 0, 0, 9::int]" by simp
  have h5: "mv_begin example_mv = mv_begin example_mv" by simp
  have h6: "\<forall>i<2. \<forall>j<2.
        gv_inner int_pair_vectors (vecs example_store ! (mv example_mv ! i))
          (vecs example_store ! (mv example_mv ! j))
      = gv_inner int_pair_vectors (vecs example_store ! (mv example_mv ! j))
          (vecs example_store ! (mv example_mv ! i))"
    by (simp add: all_less_2 example_mv_def example_store_def int_pair_vectors_def)
  have h6': "gv_inner int_pair_vectors (vecs example_store ! (mv example_mv ! 0))
          (vecs example_store ! (mv example_mv ! 1))
      = gv_inner int_pair_vectors (vecs example_store ! (mv example_mv ! 1))
          (vecs example_store ! (mv example_mv ! 0))"
    by (rule h6 [rule_format]) simp_all
  have h2': "list_all (\<lambda>p. p < length (vecs example_store)) (mv example_mv)"
    using h2 by (simp add: list_all_iff)
  show ?thesis
    using h1 h2' h3 h4 h5 h6' dot_identity_is_dot_self [OF h1 h2 h3 h4 h5 h6] by blast
qed

subsection \<open>C3: dot with another MultiVector\<close>

text \<open>
  Claim C3. When \<open>other\<close> has another buffer, \<open>N1\<close> and \<open>N2\<close> are the numbers of
  vectors of the MultiVector and of \<open>other\<close>, and the array has at least \<open>N1 * N2\<close>
  entries, \<open>dot\<close> returns an array with \<open>m'[i*N2 + j] = <self[i], other[j]>\<close>: the
  rows of inner products, one row for each vector of the MultiVector, laid one after
  the other from the start of the array, the rest of the array as it was. The inner
  products are evaluated in this order.
\<close>

theorem dot_general_row_major:
  assumes "N1 = length (mv M)" and "N2 = length (mv other)"
    and "\<forall>p\<in>set (mv M). p < length (vecs st)"
    and "\<forall>q\<in>set (mv other). q < length (vecs st)"
    and "mv_begin other \<noteq> mv_begin M"
    and "N1 * N2 \<le> length m"
  shows "\<exists>m' st'. dot_MultiVector ops st M other m = Inr (m', st')
      \<and> (\<forall>i<N1. \<forall>j<N2.
            m' ! (i * N2 + j) = gv_inner ops (vecs st ! (mv M ! i)) (vecs st ! (mv other ! j)))
      \<and> m' = concat (map (\<lambda>p. map (\<lambda>q. gv_inner ops (vecs st ! p) (vecs st ! q)) (mv other)) (mv M))
              @ drop (N1 * N2) m
      \<and> inner_calls st' = inner_calls st @ concat (map (\<lambda>p. map (\<lambda>q. (p, q)) (mv other)) (mv M))
      \<and> vecs st' = vecs st"
proof -
  let ?rows = "concat (map (\<lambda>p. map (\<lambda>q. gv_inner ops (vecs st ! p) (vecs st ! q)) (mv other)) (mv M))"
  have run: "dot_MultiVector ops st M other m =
      Inr (?rows @ drop (N1 * N2) m,
           st\<lparr>inner_calls := inner_calls st @ concat (map (\<lambda>p. map (\<lambda>q. (p, q)) (mv other)) (mv M))\<rparr>)"
    using dot_rows_eq [of "mv M" st "mv other" 0 m ops] assms
    by (simp add: dot_MultiVector_def)
  have lrows: "length ?rows = N1 * N2"
    using assms(1,2) by (simp add: length_concat_rows)
  have "(?rows @ drop (N1 * N2) m) ! (i * N2 + j)
      = gv_inner ops (vecs st ! (mv M ! i)) (vecs st ! (mv other ! j))" if "i < N1" "j < N2" for i j
  proof -
    have "j + N2 * i < N2 * N1"
    proof -
      have "j + N2 * i < N2 + N2 * i" using that by simp
      also have "\<dots> = N2 * Suc i" by simp
      also have "\<dots> \<le> N2 * N1" using that by (intro mult_le_mono2) simp
      finally show ?thesis .
    qed
    then have lt: "i * N2 + j < N1 * N2" by (simp add: ac_simps)
    have dm: "(i * N2 + j) div N2 = i" "(i * N2 + j) mod N2 = j"
      using that by simp_all
    have "?rows ! (i * N2 + j) = gv_inner ops (vecs st ! (mv M ! i)) (vecs st ! (mv other ! j))"
      using lt dm assms(1,2)
        nth_concat_rows [of "i * N2 + j" "mv M" "mv other"
          "\<lambda>p q. gv_inner ops (vecs st ! p) (vecs st ! q)"]
      by simp
    then show ?thesis using lt lrows by (simp add: nth_append)
  qed
  then show ?thesis
    using run by simp
qed

text \<open>
  The hypotheses of C3 hold for the MultiVector of \<open>(1, 2)\<close> and \<open>(3, 4)\<close> against
  the MultiVector of \<open>(5, 6)\<close>.
\<close>

theorem dot_general_row_major_witness:
  "(2::nat) = length (mv example_mv) \<and> (1::nat) = length (mv example_other)
   \<and> list_all (\<lambda>p. p < length (vecs example_store)) (mv example_mv)
   \<and> list_all (\<lambda>q. q < length (vecs example_store)) (mv example_other)
   \<and> mv_begin example_other \<noteq> mv_begin example_mv
   \<and> 2 * 1 \<le> length [0, 0, 9::int]
   \<and> (\<exists>st'. dot_MultiVector int_pair_vectors example_store example_mv example_other [0, 0, 9]
               = Inr ([17, 39, 9], st')
         \<and> inner_calls st' = [(0, 2), (1, 2)])"
proof -
  have h1: "(2::nat) = length (mv example_mv)" by (simp add: example_mv_def)
  have h2: "(1::nat) = length (mv example_other)" by (simp add: example_other_def)
  have h3: "\<forall>p\<in>set (mv example_mv). p < length (vecs example_store)"
    by (simp add: example_mv_def example_store_def)
  have h4: "\<forall>q\<in>set (mv example_other). q < length (vecs example_store)"
    by (simp add: example_other_def example_store_def)
  have h5: "mv_begin example_other \<noteq> mv_begin example_mv"
    by (simp add: example_mv_def example_other_def)
  have h6: "2 * 1 \<le> length [0, 0, 9::int]" by simp
  obtain m' st' where
    run: "dot_MultiVector int_pair_vectors example_store example_mv example_other [0, 0, 9]
            = Inr (m', st')"
    and fill: "m' = concat (map (\<lambda>p. map (\<lambda>q. gv_inner int_pair_vectors (vecs example_store ! p)
                 (vecs example_store ! q)) (mv example_other)) (mv example_mv))
              @ drop (2 * 1) [0, 0, 9]"
    and calls: "inner_calls st' = inner_calls example_store
              @ concat (map (\<lambda>p. map (\<lambda>q. (p, q)) (mv example_other)) (mv example_mv))"
    using dot_general_row_major [OF h1 h2 h3 h4 h5 h6, of int_pair_vectors] by blast
  have "m' = [17, 39, 9]"
    using fill by (simp add: example_mv_def example_other_def example_store_def int_pair_vectors_def)
  moreover have "inner_calls st' = [(0, 2), (1, 2)]"
    using calls by (simp add: example_mv_def example_other_def example_store_def)
  ultimately have concl:
    "\<exists>st'. dot_MultiVector int_pair_vectors example_store example_mv example_other [0, 0, 9]
               = Inr ([17, 39, 9], st')
         \<and> inner_calls st' = [(0, 2), (1, 2)]"
    using run by blast
  have h3': "list_all (\<lambda>p. p < length (vecs example_store)) (mv example_mv)"
    using h3 by (simp add: list_all_iff)
  have h4': "list_all (\<lambda>q. q < length (vecs example_store)) (mv example_other)"
    using h4 by (simp add: list_all_iff)
  show ?thesis
    using h1 h2 h3' h4' h5 h6 concl by blast
qed

subsection \<open>C4: reduce\<close>

text \<open>
  Claim C4, amended. For a MultiVector of \<open>N\<close> vectors of the store, a vector \<open>v\<close> of the
  store that is none of them and an array \<open>alpha\<close> of \<open>N\<close> entries, \<open>reduce\<close> leaves at
  \<open>v\<close> the old value of \<open>v\<close> after the updates \<open>v.axpy(alpha[i], self[i])\<close> in the
  order of the indices; no other vector of the store changes, in particular none of the
  MultiVector. When \<open>alpha\<close> is \<open>one\<close> at \<open>k\<close> and \<open>zero\<close> elsewhere, \<open>axpy\<close> with the
  scalar \<open>zero\<close> changing nothing, the value left at \<open>v\<close> is that of the single
  update \<open>v.axpy(one, self[k])\<close>.
\<close>

theorem reduce_accumulates:
  assumes "N = length (mv M)"
    and "\<forall>p\<in>set (mv M). p < length (vecs st)"
    and "v < length (vecs st)"
    and "v \<notin> set (mv M)"
    and "length alpha = N"
  shows "\<exists>st'. reduce ops st M v alpha = Inr st'
      \<and> vecs st' ! v = foldl (\<lambda>acc (a, x). gv_axpy ops a x acc) (vecs st ! v)
                          (zip alpha (map (\<lambda>p. vecs st ! p) (mv M)))
      \<and> length (vecs st') = length (vecs st)
      \<and> (\<forall>p. p \<noteq> v \<longrightarrow> vecs st' ! p = vecs st ! p)
      \<and> (\<forall>p\<in>set (mv M). vecs st' ! p = vecs st ! p)
      \<and> (\<forall>k zero one.
            k < N \<and> alpha = (replicate N zero)[k := one] \<and> (\<forall>x y. gv_axpy ops zero x y = y)
            \<longrightarrow> vecs st' ! v = gv_axpy ops one (vecs st ! (mv M ! k)) (vecs st ! v))"
proof -
  let ?f = "\<lambda>acc (a, x). gv_axpy ops a x acc"
  let ?xs = "map (\<lambda>p. vecs st ! p) (mv M)"
  let ?st' = "st\<lparr>vecs := (vecs st)[v := foldl ?f (vecs st ! v) (zip alpha ?xs)]\<rparr>"
  have sep: "\<forall>p\<in>set (mv M). p < length (vecs st) \<and> p \<noteq> v"
    using assms(2,4) by auto
  have run: "reduce ops st M v alpha = Inr ?st'"
    using reduce_loop_eq [OF sep assms(3), of 0 alpha ops] assms(1,5)
    by (simp add: reduce_def)
  have val: "vecs ?st' ! v = foldl ?f (vecs st ! v) (zip alpha ?xs)"
    using assms(3) by simp
  have hot: "vecs ?st' ! v = gv_axpy ops one (vecs st ! (mv M ! k)) (vecs st ! v)"
    if "k < N" "alpha = (replicate N zero)[k := one]" "\<forall>x y. gv_axpy ops zero x y = y"
    for k zero one
  proof -
    have "foldl ?f (vecs st ! v) (zip ((replicate (length ?xs) zero)[k := one]) ?xs)
        = gv_axpy ops one (?xs ! k) (vecs st ! v)"
      using that(1,3) assms(1) by (intro foldl_axpy_one_hot) simp_all
    then show ?thesis
      using val that(1,2) assms(1) by simp
  qed
  have frame: "\<forall>p. p \<noteq> v \<longrightarrow> vecs ?st' ! p = vecs st ! p"
    by simp
  have slots: "\<forall>p\<in>set (mv M). vecs ?st' ! p = vecs st ! p"
    using sep by auto
  have len: "length (vecs ?st') = length (vecs st)"
    by simp
  have hot': "\<forall>k zero one.
            k < N \<and> alpha = (replicate N zero)[k := one] \<and> (\<forall>x y. gv_axpy ops zero x y = y)
            \<longrightarrow> vecs ?st' ! v = gv_axpy ops one (vecs st ! (mv M ! k)) (vecs st ! v)"
    using hot by blast
  show ?thesis
    by (intro exI [of _ ?st'] conjI run val len frame slots hot')
qed

text \<open>
  The hypotheses of the amended C4 hold for the MultiVector of \<open>(1, 2)\<close> and
  \<open>(3, 4)\<close>, the vector \<open>(5, 6)\<close> and the coefficients \<open>[0, 1]\<close>: the vector becomes
  \<open>(8, 10)\<close>.
\<close>

theorem reduce_accumulates_witness:
  "(2::nat) = length (mv example_mv)
   \<and> list_all (\<lambda>p. p < length (vecs example_store)) (mv example_mv)
   \<and> 2 < length (vecs example_store)
   \<and> 2 \<notin> set (mv example_mv)
   \<and> length [0, 1::int] = 2
   \<and> 1 < (2::nat) \<and> [0, 1::int] = (replicate 2 0)[1 := 1]
   \<and> (\<forall>x y. gv_axpy int_pair_vectors 0 x y = y)
   \<and> (\<exists>st'. reduce int_pair_vectors example_store example_mv 2 [0, 1] = Inr st'
         \<and> vecs st' = [(1, 2), (3, 4), (8, 10), (7, 8)])"
proof -
  have h1: "(2::nat) = length (mv example_mv)" by (simp add: example_mv_def)
  have h2: "\<forall>p\<in>set (mv example_mv). p < length (vecs example_store)"
    by (simp add: example_mv_def example_store_def)
  have h3: "2 < length (vecs example_store)" by (simp add: example_store_def)
  have h4: "2 \<notin> set (mv example_mv)" by (simp add: example_mv_def)
  have h5: "length [0, 1::int] = 2" by simp
  have h6: "1 < (2::nat) \<and> [0, 1::int] = (replicate 2 0)[1 := 1]"
    by (simp add: numeral_2_eq_2)
  have h7: "\<forall>x y. gv_axpy int_pair_vectors 0 x y = y"
    by (simp add: int_pair_vectors_def)
  obtain st' where
    run: "reduce int_pair_vectors example_store example_mv 2 [0, 1] = Inr st'"
    and len: "length (vecs st') = length (vecs example_store)"
    and frame: "\<forall>p. p \<noteq> 2 \<longrightarrow> vecs st' ! p = vecs example_store ! p"
    and hot: "\<forall>k zero one. k < 2 \<and> [0, 1] = (replicate 2 zero)[k := one]
            \<and> (\<forall>x y. gv_axpy int_pair_vectors zero x y = y)
            \<longrightarrow> vecs st' ! 2 = gv_axpy int_pair_vectors one
                   (vecs example_store ! (mv example_mv ! k)) (vecs example_store ! 2)"
    using reduce_accumulates [OF h1 h2 h3 h4 h5, of int_pair_vectors] by blast
  have v2: "vecs st' ! 2 = (8, 10)"
    using hot [rule_format, of 1 0 1] h6 h7
    by (simp add: example_mv_def example_store_def int_pair_vectors_def)
  have "vecs st' = [(1, 2), (3, 4), (8, 10), (7, 8)]"
  proof (rule nth_equalityI)
    show "length (vecs st') = length [(1, 2), (3, 4), (8, 10), (7, 8)]"
      using len by (simp add: example_store_def)
  next
    fix i assume "i < length (vecs st')"
    then have "i = 0 \<or> i = 1 \<or> i = 2 \<or> i = 3" using len by (auto simp: example_store_def)
    then show "vecs st' ! i = [(1, 2), (3, 4), (8, 10), (7, 8)] ! i"
      using frame v2 by (auto simp: example_store_def)
  qed
  then have concl:
    "\<exists>st'. reduce int_pair_vectors example_store example_mv 2 [0, 1] = Inr st'
         \<and> vecs st' = [(1, 2), (3, 4), (8, 10), (7, 8)]"
    using run by blast
  have h2': "list_all (\<lambda>p. p < length (vecs example_store)) (mv example_mv)"
    using h2 by (simp add: list_all_iff)
  show ?thesis
    using h1 h2' h3 h4 h5 h6 h7 concl by blast
qed

text \<open>
  Claim C4 as stated fails when \<open>v\<close> is one of the vectors of the MultiVector, as
  \<open>reduce(*mv[1], alpha)\<close> makes it: with the MultiVector of \<open>(1, 2)\<close> and \<open>(3, 4)\<close>,
  \<open>v\<close> its second vector and the coefficients \<open>[1, 1]\<close>, the second vector of the
  MultiVector is changed, to \<open>(8, 12)\<close>, which is not the old value of \<open>v\<close> plus the sum
  of the old vectors, \<open>(7, 10)\<close>: the second update reads the value the first one left.
\<close>

theorem reduce_aliased_counterexample:
  "length [1, 1::int] = length (mv example_mv)
   \<and> mv example_mv ! 1 = 1
   \<and> vecs example_store ! 0 = (1, 2) \<and> vecs example_store ! 1 = (3, 4)
   \<and> reduce int_pair_vectors example_store example_mv 1 [1, 1]
       = Inr (example_store\<lparr>vecs := [(1, 2), (8, 12), (5, 6), (7, 8)]\<rparr>)"
  by (simp add: reduce_def array_get_def vec_axpy_def deref_def example_mv_def example_store_def
        int_pair_vectors_def)

subsection \<open>C5: scale with an array of another size\<close>

text \<open>
  Claim C5 fails on the code: \<open>scale\<close> with an array of two coefficients on a
  MultiVector of one vector raises nothing; it returns normally, the vector scaled by the
  first coefficient.
\<close>

theorem scale_Array_longer_array:
  "nvec example_other = 1 \<and> length [2, 3::int] = 2
   \<and> scale_Array int_pair_vectors example_store example_other [2, 3]
       = Inr (example_other, example_store\<lparr>vecs := [(1, 2), (3, 4), (10, 12), (7, 8)]\<rparr>)"
  by (simp add: nvec_def int_of_size_def scale_Array_def example_other_def example_store_def
        array_get_def vec_scale_def deref_def int_pair_vectors_def)

subsection \<open>C6: axpy with an array and a MultiVector\<close>

text \<open>
  Claim C6. For a MultiVector of \<open>N\<close> vectors (\<open>N\<close> and the number of vectors of \<open>y\<close>
  in the range of \<open>int\<close>), \<open>axpy\<close> with an array \<open>a\<close> and a MultiVector \<open>y\<close> fails its
  assertion when the size of \<open>a\<close> or the number of vectors of \<open>y\<close> is not \<open>N\<close>. When both
  are \<open>N\<close>, the slots of the MultiVector being distinct vectors of the store and slot \<open>i\<close>
  of \<open>y\<close> a vector of the store that is no slot of the MultiVector other than slot \<open>i\<close>,
  it returns with slot \<open>i\<close> holding the value of \<open>self[i].axpy(a[i], y[i])\<close> on the old
  values, for each \<open>i < N\<close>, and every other vector as it was.
\<close>

theorem axpy_per_slice:
  assumes "N = length (mv M)" and "int N \<le> INT_MAX" and "int (length (mv y)) \<le> INT_MAX"
  shows "(length a \<noteq> N \<or> length (mv y) \<noteq> N \<longrightarrow>
            axpy_MultiVector ops st M a y = Inl AssertionFailed)
      \<and> (length a = N \<and> length (mv y) = N \<and> distinct (mv M)
          \<and> (\<forall>i<N. \<forall>k<N. i \<noteq> k \<longrightarrow> mv y ! i \<noteq> mv M ! k)
          \<and> (\<forall>p\<in>set (mv M). p < length (vecs st)) \<and> (\<forall>q\<in>set (mv y). q < length (vecs st))
          \<longrightarrow> (\<exists>st'. axpy_MultiVector ops st M a y = Inr (M, st')
                 \<and> (\<forall>i<N. vecs st' ! (mv M ! i)
                      = gv_axpy ops (a ! i) (vecs st ! (mv y ! i)) (vecs st ! (mv M ! i)))
                 \<and> (\<forall>p. p \<notin> set (mv M) \<longrightarrow> vecs st' ! p = vecs st ! p)
                 \<and> length (vecs st') = length (vecs st)))"
proof (intro conjI impI)
  have n: "nvec M = int N" using assms(1,2) by (simp add: nvec_def int_of_size_small)
  have ny: "nvec y = int (length (mv y))" using assms(3) by (simp add: nvec_def int_of_size_small)
  have sz: "size_of_int (int N) = N" using assms(2) by (rule size_of_int_small)
  {
    assume d: "length a \<noteq> N \<or> length (mv y) \<noteq> N"
    show "axpy_MultiVector ops st M a y = Inl AssertionFailed"
    proof (cases "length a = N")
      case True
      then have "length (mv y) \<noteq> N" using d by simp
      then show ?thesis by (simp add: axpy_MultiVector_def Let_def n ny sz)
    next
      case False
      then show ?thesis by (simp add: axpy_MultiVector_def Let_def n sz)
    qed
  next
    assume a: "length a = N \<and> length (mv y) = N \<and> distinct (mv M)
          \<and> (\<forall>i<N. \<forall>k<N. i \<noteq> k \<longrightarrow> mv y ! i \<noteq> mv M ! k)
          \<and> (\<forall>p\<in>set (mv M). p < length (vecs st)) \<and> (\<forall>q\<in>set (mv y). q < length (vecs st))"
    obtain st' where
      run: "axpy_slices ops st M a y (int N) 0 = Inr st'"
      and len: "length (vecs st') = length (vecs st)"
      and upd: "\<forall>k. 0 \<le> k \<and> k < N \<longrightarrow>
           vecs st' ! (mv M ! k) = gv_axpy ops (a ! k) (vecs st ! (mv y ! k)) (vecs st ! (mv M ! k))"
      and frame: "\<forall>p. (\<forall>k. 0 \<le> k \<and> k < N \<longrightarrow> p \<noteq> mv M ! k) \<longrightarrow> vecs st' ! p = vecs st ! p"
      using axpy_slices_eq [OF assms(1) a [THEN conjunct2, THEN conjunct1] a [THEN conjunct1]
          a [THEN conjunct2, THEN conjunct2, THEN conjunct1]
          a [THEN conjunct2, THEN conjunct2, THEN conjunct2, THEN conjunct1]
          a [THEN conjunct2, THEN conjunct2, THEN conjunct2, THEN conjunct2, THEN conjunct1]
          a [THEN conjunct2, THEN conjunct2, THEN conjunct2, THEN conjunct2, THEN conjunct2]
          le0 refl, of ops]
      by blast
    have "axpy_MultiVector ops st M a y = Inr (M, st')"
      using a run by (simp add: axpy_MultiVector_def Let_def n ny sz)
    moreover have "\<forall>i<N. vecs st' ! (mv M ! i)
                      = gv_axpy ops (a ! i) (vecs st ! (mv y ! i)) (vecs st ! (mv M ! i))"
      using upd by simp
    moreover have "\<forall>p. p \<notin> set (mv M) \<longrightarrow> vecs st' ! p = vecs st ! p"
      using frame assms(1) by (metis nth_mem)
    ultimately show "\<exists>st'. axpy_MultiVector ops st M a y = Inr (M, st')
                 \<and> (\<forall>i<N. vecs st' ! (mv M ! i)
                      = gv_axpy ops (a ! i) (vecs st ! (mv y ! i)) (vecs st ! (mv M ! i)))
                 \<and> (\<forall>p. p \<notin> set (mv M) \<longrightarrow> vecs st' ! p = vecs st ! p)
                 \<and> length (vecs st') = length (vecs st)"
      using len by blast
  }
qed

text \<open>
  The hypotheses of C6 hold, for the failing cases, with three coefficients and with a
  MultiVector of one vector, and for the other case with the coefficients \<open>[2, 3]\<close> and
  the MultiVector of \<open>(5, 6)\<close> and \<open>(7, 8)\<close>.
\<close>

theorem axpy_per_slice_witness:
  "(2::nat) = length (mv example_mv) \<and> int 2 \<le> INT_MAX
   \<and> int (length (mv example_pair)) \<le> INT_MAX \<and> int (length (mv example_other)) \<le> INT_MAX
   \<and> length [2, 3, 4::int] \<noteq> 2
   \<and> axpy_MultiVector int_pair_vectors example_store example_mv [2, 3, 4] example_pair
       = Inl AssertionFailed
   \<and> length (mv example_other) \<noteq> 2
   \<and> axpy_MultiVector int_pair_vectors example_store example_mv [2, 3] example_other
       = Inl AssertionFailed
   \<and> length [2, 3::int] = 2 \<and> length (mv example_pair) = 2 \<and> distinct (mv example_mv)
   \<and> set (mv example_pair) \<inter> set (mv example_mv) = {}
   \<and> list_all (\<lambda>p. p < length (vecs example_store)) (mv example_mv)
   \<and> list_all (\<lambda>q. q < length (vecs example_store)) (mv example_pair)
   \<and> (\<exists>st'. axpy_MultiVector int_pair_vectors example_store example_mv [2, 3] example_pair
               = Inr (example_mv, st')
         \<and> vecs st' ! 0 = (11, 14) \<and> vecs st' ! 1 = (24, 28)
         \<and> vecs st' ! 2 = (5, 6) \<and> vecs st' ! 3 = (7, 8))"
proof -
  have h1: "(2::nat) = length (mv example_mv)" by (simp add: example_mv_def)
  have h2: "int 2 \<le> INT_MAX" by (simp add: INT_MAX_def)
  have h3: "int (length (mv example_pair)) \<le> INT_MAX"
    by (simp add: INT_MAX_def example_pair_def)
  have h3': "int (length (mv example_other)) \<le> INT_MAX"
    by (simp add: INT_MAX_def example_other_def)
  have m1: "length [2, 3, 4::int] \<noteq> 2" by simp
  have m2: "length (mv example_other) \<noteq> 2" by (simp add: example_other_def)
  have fail1: "axpy_MultiVector int_pair_vectors example_store example_mv [2, 3, 4] example_pair
       = Inl AssertionFailed"
    using axpy_per_slice [OF h1 h2 h3, of "[2, 3, 4]" int_pair_vectors example_store,
        THEN conjunct1] m1
    by blast
  have fail2: "axpy_MultiVector int_pair_vectors example_store example_mv [2, 3] example_other
       = Inl AssertionFailed"
    using axpy_per_slice [OF h1 h2 h3', of "[2, 3]" int_pair_vectors example_store,
        THEN conjunct1] m2
    by blast
  have g1: "length [2, 3::int] = 2" by simp
  have g2: "length (mv example_pair) = 2" by (simp add: example_pair_def)
  have g3: "distinct (mv example_mv)" by (simp add: example_mv_def)
  have g4: "\<forall>i<2. \<forall>k<2. i \<noteq> k \<longrightarrow> mv example_pair ! i \<noteq> mv example_mv ! k"
    by (simp add: all_less_2 example_pair_def example_mv_def)
  have g5: "\<forall>p\<in>set (mv example_mv). p < length (vecs example_store)"
    by (simp add: example_mv_def example_store_def)
  have g6: "\<forall>q\<in>set (mv example_pair). q < length (vecs example_store)"
    by (simp add: example_pair_def example_store_def)
  obtain st' where
    run: "axpy_MultiVector int_pair_vectors example_store example_mv [2, 3] example_pair
            = Inr (example_mv, st')"
    and upd: "\<forall>i<2. vecs st' ! (mv example_mv ! i)
        = gv_axpy int_pair_vectors ([2, 3] ! i) (vecs example_store ! (mv example_pair ! i))
            (vecs example_store ! (mv example_mv ! i))"
    and frame: "\<forall>p. p \<notin> set (mv example_mv) \<longrightarrow> vecs st' ! p = vecs example_store ! p"
    using axpy_per_slice [OF h1 h2 h3, of "[2, 3]" int_pair_vectors example_store,
        THEN conjunct2, rule_format,
        OF conjI [OF g1 conjI [OF g2 conjI [OF g3 conjI [OF g4 conjI [OF g5 g6]]]]]]
    by blast
  have v0: "vecs st' ! 0 = (11, 14)" and v1: "vecs st' ! 1 = (24, 28)"
    using upd
    by (simp_all add: all_less_2 example_mv_def example_pair_def example_store_def
          int_pair_vectors_def)
  have v2: "vecs st' ! 2 = (5, 6)" and v3: "vecs st' ! 3 = (7, 8)"
    using frame [rule_format, of 2] frame [rule_format, of 3]
    by (simp_all add: example_mv_def example_store_def)
  have concl: "\<exists>st'. axpy_MultiVector int_pair_vectors example_store example_mv [2, 3] example_pair
               = Inr (example_mv, st')
         \<and> vecs st' ! 0 = (11, 14) \<and> vecs st' ! 1 = (24, 28)
         \<and> vecs st' ! 2 = (5, 6) \<and> vecs st' ! 3 = (7, 8)"
    using run v0 v1 v2 v3 by blast
  have g4': "set (mv example_pair) \<inter> set (mv example_mv) = {}"
    by (simp add: example_pair_def example_mv_def)
  have g5': "list_all (\<lambda>p. p < length (vecs example_store)) (mv example_mv)"
    using g5 by (simp add: list_all_iff)
  have g6': "list_all (\<lambda>q. q < length (vecs example_store)) (mv example_pair)"
    using g6 by (simp add: list_all_iff)
  show ?thesis
    using h1 h2 h3 h3' m1 fail1 m2 fail2 g1 g2 g3 g4' g5' g6' concl by blast
qed

subsection \<open>C7: the number of vectors\<close>

text \<open>
  Claim C7, amended. The member functions that are not \<open>const\<close> and are not \<open>swap\<close>
  (\<open>axpy\<close> in both forms, \<open>scale\<close> in both forms, \<open>zero\<close>) return the MultiVector with
  the \<open>nvec()\<close> it had; \<open>swap\<close> leaves in each of the two MultiVectors the \<open>nvec()\<close> of
  the other. (\<open>dot\<close>, \<open>dot_self\<close>, \<open>reduce\<close> and \<open>norm_all\<close> are \<open>const\<close>: the model
  gives them the MultiVector and they return none.)
\<close>

theorem nvec_unchanged_except_swap:
  "(\<forall>M' st'. axpy_GenericVector ops st M a y = Inr (M', st')
        \<longrightarrow> length (mv M') = length (mv M) \<and> nvec M' = nvec M)
   \<and> (\<forall>M' st'. axpy_MultiVector ops st M alpha Y = Inr (M', st')
        \<longrightarrow> length (mv M') = length (mv M) \<and> nvec M' = nvec M)
   \<and> (\<forall>M' st'. scale_int ops st M k a = Inr (M', st')
        \<longrightarrow> length (mv M') = length (mv M) \<and> nvec M' = nvec M)
   \<and> (\<forall>M' st'. scale_Array ops st M alpha = Inr (M', st')
        \<longrightarrow> length (mv M') = length (mv M) \<and> nvec M' = nvec M)
   \<and> (\<forall>M' st'. zero_all ops st M = Inr (M', st')
        \<longrightarrow> length (mv M') = length (mv M) \<and> nvec M' = nvec M)
   \<and> length (mv (fst (swap M other))) = length (mv other)
   \<and> length (mv (snd (swap M other))) = length (mv M)
   \<and> nvec (fst (swap M other)) = nvec other
   \<and> nvec (snd (swap M other)) = nvec M"
proof -
  have "\<forall>M' st'. axpy_GenericVector ops st M a y = Inr (M', st')
        \<longrightarrow> length (mv M') = length (mv M) \<and> nvec M' = nvec M"
    by (auto simp: axpy_GenericVector_def split: sum.splits)
  moreover have "\<forall>M' st'. axpy_MultiVector ops st M alpha Y = Inr (M', st')
        \<longrightarrow> length (mv M') = length (mv M) \<and> nvec M' = nvec M"
    by (auto simp: axpy_MultiVector_def Let_def split: sum.splits if_splits)
  moreover have "\<forall>M' st'. scale_int ops st M k a = Inr (M', st')
        \<longrightarrow> length (mv M') = length (mv M) \<and> nvec M' = nvec M"
    by (auto simp: scale_int_def split: sum.splits)
  moreover have "\<forall>M' st'. scale_Array ops st M alpha = Inr (M', st')
        \<longrightarrow> length (mv M') = length (mv M) \<and> nvec M' = nvec M"
    by (auto simp: scale_Array_def split: sum.splits)
  moreover have "\<forall>M' st'. zero_all ops st M = Inr (M', st')
        \<longrightarrow> length (mv M') = length (mv M) \<and> nvec M' = nvec M"
    by (auto simp: zero_all_def split: sum.splits)
  moreover have "length (mv (fst (swap M other))) = length (mv other)"
    "length (mv (snd (swap M other))) = length (mv M)"
    "nvec (fst (swap M other)) = nvec other" "nvec (snd (swap M other)) = nvec M"
    by (simp_all add: swap_def nvec_def)
  ultimately show ?thesis by blast
qed

text \<open>
  Each operation of the amended C7 returns on the MultiVector of \<open>(1, 2)\<close> and
  \<open>(3, 4)\<close>.
\<close>

theorem nvec_unchanged_except_swap_witness:
  "(\<exists>M' st'. axpy_GenericVector int_pair_vectors example_store example_mv 2 2 = Inr (M', st')
        \<and> length (mv M') = length (mv example_mv) \<and> nvec M' = nvec example_mv)
   \<and> (\<exists>M' st'. axpy_MultiVector int_pair_vectors example_store example_mv [2, 3] example_mv
                  = Inr (M', st')
        \<and> length (mv M') = length (mv example_mv) \<and> nvec M' = nvec example_mv)
   \<and> (\<exists>M' st'. scale_int int_pair_vectors example_store example_mv 1 2 = Inr (M', st')
        \<and> length (mv M') = length (mv example_mv) \<and> nvec M' = nvec example_mv)
   \<and> (\<exists>M' st'. scale_Array int_pair_vectors example_store example_mv [2, 3] = Inr (M', st')
        \<and> length (mv M') = length (mv example_mv) \<and> nvec M' = nvec example_mv)
   \<and> (\<exists>M' st'. zero_all int_pair_vectors example_store example_mv = Inr (M', st')
        \<and> length (mv M') = length (mv example_mv) \<and> nvec M' = nvec example_mv)"
proof -
  note inv = nvec_unchanged_except_swap [of int_pair_vectors example_store example_mv 2 2
      "[2, 3]" example_mv 1 example_other]
  have r1: "\<exists>M' st'. axpy_GenericVector int_pair_vectors example_store example_mv 2 2 = Inr (M', st')"
    by (simp add: axpy_GenericVector_def example_mv_def example_store_def vec_axpy_def deref_def)
  have r2: "\<exists>M' st'. axpy_MultiVector int_pair_vectors example_store example_mv [2, 3] example_mv
                  = Inr (M', st')"
    by (simp add: axpy_MultiVector_def nvec_def int_of_size_def size_of_int_def axpy_slices.simps
          slot_def array_get_def example_mv_def example_store_def vec_axpy_def deref_def)
  have r3: "\<exists>M' st'. scale_int int_pair_vectors example_store example_mv 1 2 = Inr (M', st')"
    by (simp add: scale_int_def slot_def example_mv_def example_store_def vec_scale_def deref_def)
  have r4: "\<exists>M' st'. scale_Array int_pair_vectors example_store example_mv [2, 3] = Inr (M', st')"
    by (simp add: scale_Array_def array_get_def example_mv_def example_store_def vec_scale_def
          deref_def)
  have r5: "\<exists>M' st'. zero_all int_pair_vectors example_store example_mv = Inr (M', st')"
    by (simp add: zero_all_def example_mv_def example_store_def vec_zero_def deref_def)
  show ?thesis
    using inv r1 r2 r3 r4 r5 by blast
qed

text \<open>
  Claim C7 as stated fails for \<open>swap\<close>: the MultiVector of two vectors has \<open>nvec() = 1\<close>
  after \<open>swap\<close> with a MultiVector of one vector.
\<close>

theorem swap_changes_nvec_counterexample:
  "length (mv example_mv) = 2 \<and> nvec example_mv = 2
   \<and> length (mv (fst (swap example_mv example_other))) = 1
   \<and> nvec (fst (swap example_mv example_other)) = 1"
  by (simp add: swap_def nvec_def int_of_size_def example_mv_def example_other_def)

subsection \<open>C8: construction from a vector and a count\<close>

text \<open>
  Claim C8. For a count \<open>n\<close> with \<open>0 \<le> n\<close> (an \<open>int\<close>) and a vector \<open>v\<close> of the store,
  the constructor returns a MultiVector with \<open>nvec() = n\<close>, whose \<open>n\<close> slots are distinct
  vector objects that were not in the store before, each with the value of \<open>v\<close> after
  \<open>zero()\<close>: the same value, hence the same layout, in all of them. The vectors that were
  in the store, \<open>v\<close> among them, keep their values.
\<close>

theorem MultiVector_ctor_zeroed_copies:
  assumes "0 \<le> n" and "n \<le> INT_MAX" and "v < length (vecs st)"
  shows "\<exists>M st'. MultiVector_ctor ops st v n = Inr (M, st')
      \<and> nvec M = n
      \<and> length (mv M) = nat n
      \<and> distinct (mv M)
      \<and> (\<forall>p\<in>set (mv M). length (vecs st) \<le> p \<and> p < length (vecs st')
            \<and> vecs st' ! p = gv_zero ops (vecs st ! v))
      \<and> (\<forall>p<length (vecs st). vecs st' ! p = vecs st ! p)"
proof -
  let ?L = "length (vecs st)"
  let ?z = "gv_zero ops (vecs st ! v)"
  obtain b st1 where alloc: "alloc_buffer st (nat n) = (b, st1)" and v1: "vecs st1 = vecs st"
    by (cases "nat n = 0") (simp_all add: alloc_buffer_def)
  let ?M = "\<lparr>mv_begin = b, mv = [?L..<?L + nat n]\<rparr>"
  let ?st' = "st1\<lparr>vecs := vecs st @ replicate (nat n) ?z\<rparr>"
  have fill: "fill_slots ops st1 v (nat n) = Inr ([?L..<?L + nat n], ?st')"
    using fill_slots_eq [of v st1 ops "nat n"] assms(3) v1 by simp
  have run: "MultiVector_ctor ops st v n = Inr (?M, ?st')"
    using assms(1) alloc fill by (simp add: MultiVector_ctor_def)
  have count: "nvec ?M = n"
    using assms(1,2) by (simp add: nvec_def int_of_size_small)
  have slots: "\<forall>p\<in>set (mv ?M). ?L \<le> p \<and> p < length (vecs ?st') \<and> vecs ?st' ! p = ?z"
    by (auto simp: nth_append)
  have old: "\<forall>p<?L. vecs ?st' ! p = vecs st ! p"
    by (simp add: nth_append)
  have len: "length (mv ?M) = nat n" and dist: "distinct (mv ?M)"
    by simp_all
  show ?thesis
    by (intro exI [of _ ?M] exI [of _ ?st'] conjI run count len dist slots old)
qed

text \<open>
  The hypotheses of C8 hold for the vector \<open>(1, 2)\<close> and the count 2.
\<close>

theorem MultiVector_ctor_zeroed_copies_witness:
  "(0::int) \<le> 2 \<and> (2::int) \<le> INT_MAX \<and> 0 < length (vecs example_store)
   \<and> (\<exists>M st'. MultiVector_ctor int_pair_vectors example_store 0 2 = Inr (M, st')
         \<and> nvec M = 2
         \<and> list_all (\<lambda>p. 4 \<le> p \<and> vecs st' ! p = (0, 0)) (mv M)
         \<and> vecs st' ! 0 = (1, 2))"
proof -
  have h1: "(0::int) \<le> 2" by simp
  have h2: "(2::int) \<le> INT_MAX" by (simp add: INT_MAX_def)
  have h3: "0 < length (vecs example_store)" by (simp add: example_store_def)
  obtain M st' where
    run: "MultiVector_ctor int_pair_vectors example_store 0 2 = Inr (M, st')"
    and count: "nvec M = 2"
    and slots: "\<forall>p\<in>set (mv M). length (vecs example_store) \<le> p \<and> p < length (vecs st')
            \<and> vecs st' ! p = gv_zero int_pair_vectors (vecs example_store ! 0)"
    and old: "\<forall>p<length (vecs example_store). vecs st' ! p = vecs example_store ! p"
    using MultiVector_ctor_zeroed_copies [OF h1 h2 h3, of int_pair_vectors] by blast
  have "list_all (\<lambda>p. 4 \<le> p \<and> vecs st' ! p = (0, 0)) (mv M)"
    using slots by (auto simp: list_all_iff example_store_def int_pair_vectors_def)
  moreover have "vecs st' ! 0 = (1, 2)"
    using old by (simp add: example_store_def)
  ultimately have concl: "\<exists>M st'. MultiVector_ctor int_pair_vectors example_store 0 2 = Inr (M, st')
         \<and> nvec M = 2
         \<and> list_all (\<lambda>p. 4 \<le> p \<and> vecs st' ! p = (0, 0)) (mv M)
         \<and> vecs st' ! 0 = (1, 2)"
    using run count by blast
  show ?thesis
    using h1 h2 h3 concl by blast
qed

subsection \<open>C9: operations on an empty MultiVector\<close>

text \<open>
  Claim C9, amended. On a MultiVector of no vectors, as the default constructor makes it,
  \<open>dot\<close> (with a vector or a MultiVector), \<open>dot_self\<close>, \<open>reduce\<close>, \<open>axpy\<close> with a scalar,
  \<open>scale\<close> with an array, \<open>zero\<close> and \<open>norm_all\<close> return without an error and leave the
  array and the store as they were; \<open>axpy\<close> with an array does so when the array and
  \<open>y\<close> are empty and fails its assertion otherwise.
\<close>

theorem empty_MultiVector_operations_succeed:
  assumes "mv M = []"
  shows "dot_GenericVector ops st M v m = Inr (m, st)
      \<and> dot_MultiVector ops st M other m = Inr (m, st)
      \<and> dot_self ops st M m = Inr (m, st)
      \<and> reduce ops st M v alpha = Inr st
      \<and> axpy_GenericVector ops st M a v = Inr (M, st)
      \<and> axpy_MultiVector ops st M alpha other
          = (if alpha = [] \<and> nvec other = 0 then Inr (M, st) else Inl AssertionFailed)
      \<and> scale_Array ops st M alpha = Inr (M, st)
      \<and> zero_all ops st M = Inr (M, st)
      \<and> norm_all ops st M norm_type m = Inr m"
proof -
  have self: "dot_self ops st M m = Inr (m, st)"
    using assms by (simp add: dot_self_def int_of_size_0 dot_self_i.simps)
  have slices: "axpy_slices ops st M coeffs other 0 0 = Inr st" for coeffs
    by (simp add: axpy_slices.simps)
  have per_slice: "axpy_MultiVector ops st M alpha other
          = (if alpha = [] \<and> nvec other = 0 then Inr (M, st) else Inl AssertionFailed)"
    using assms slices
    by (simp add: axpy_MultiVector_def nvec_def int_of_size_0 size_of_int_def)
  show ?thesis
    using assms self per_slice
    by (simp add: dot_GenericVector_def dot_MultiVector_def reduce_def axpy_GenericVector_def
          scale_Array_def zero_all_def norm_all_def)
qed

text \<open>
  The hypothesis of the amended C9 holds for the default-constructed MultiVector.
\<close>

theorem empty_MultiVector_operations_succeed_witness:
  "mv MultiVector_default = []
   \<and> dot_GenericVector int_pair_vectors example_store MultiVector_default 0 [7] = Inr ([7], example_store)
   \<and> reduce int_pair_vectors example_store MultiVector_default 0 [] = Inr example_store
   \<and> zero_all int_pair_vectors example_store MultiVector_default = Inr (MultiVector_default, example_store)
   \<and> norm_all int_pair_vectors example_store MultiVector_default ''l2'' [7] = Inr [7]"
proof -
  have h: "mv MultiVector_default = []" by (simp add: MultiVector_default_def)
  show ?thesis
    using h empty_MultiVector_operations_succeed [OF h, where ops = int_pair_vectors
        and st = example_store and v = 0 and m = "[7]" and alpha = "[]"
        and norm_type = "''l2''"]
    by blast
qed

text \<open>
  Claim C9 as stated fails: on the default-constructed MultiVector \<open>dot\<close> with a vector
  and \<open>zero\<close> return normally, without any error.
\<close>

theorem empty_MultiVector_dot_counterexample:
  "dot_GenericVector int_pair_vectors example_store MultiVector_default 0 [7] = Inr ([7], example_store)
   \<and> zero_all int_pair_vectors example_store MultiVector_default
       = Inr (MultiVector_default, example_store)"
  by (simp add: dot_GenericVector_def zero_all_def MultiVector_default_def)

subsection \<open>C10: what the operations write to their arrays\<close>

text \<open>
  Claim C10. For a MultiVector of \<open>N\<close> vectors of the store, each operation that fills an
  array returns an array of the same length, the computed values at its start and the
  entries after them as they were: \<open>N\<close> values for \<open>dot\<close> with a vector, \<open>N\<close> times the
  number of vectors of \<open>other\<close> for \<open>dot\<close> with a MultiVector of another buffer,
  \<open>N * N\<close> for \<open>dot_self\<close> (and for \<open>dot\<close> with the MultiVector's own buffer), and \<open>N\<close>
  for \<open>norm_all\<close>; the array being long enough for them. The values are functions of the
  store and the slots alone.
\<close>

theorem output_buffers_frame:
  assumes "N = length (mv M)"
    and "\<forall>p\<in>set (mv M). p < length (vecs st)"
  shows "(v < length (vecs st) \<and> N \<le> length m \<longrightarrow>
          (\<exists>m' st'. dot_GenericVector ops st M v m = Inr (m', st')
             \<and> length m' = length m
             \<and> take N m' = map (\<lambda>p. gv_inner ops (vecs st ! p) (vecs st ! v)) (mv M)
             \<and> drop N m' = drop N m))
      \<and> (mv_begin other \<noteq> mv_begin M \<and> (\<forall>q\<in>set (mv other). q < length (vecs st))
            \<and> N * length (mv other) \<le> length m \<longrightarrow>
          (\<exists>m' st'. dot_MultiVector ops st M other m = Inr (m', st')
             \<and> length m' = length m
             \<and> take (N * length (mv other)) m'
                 = concat (map (\<lambda>p. map (\<lambda>q. gv_inner ops (vecs st ! p) (vecs st ! q)) (mv other))
                     (mv M))
             \<and> drop (N * length (mv other)) m' = drop (N * length (mv other)) m))
      \<and> (int (N * N) \<le> INT_MAX \<and> N * N \<le> length m \<longrightarrow>
          (\<exists>m' st'. dot_self ops st M m = Inr (m', st')
             \<and> (mv_begin other = mv_begin M \<longrightarrow> dot_MultiVector ops st M other m = Inr (m', st'))
             \<and> length m' = length m
             \<and> take (N * N) m'
                 = map (\<lambda>k. gv_inner ops (vecs st ! (mv M ! max (k mod N) (k div N)))
                              (vecs st ! (mv M ! min (k mod N) (k div N)))) [0..<N * N]
             \<and> drop (N * N) m' = drop (N * N) m))
      \<and> (N \<le> length norms \<longrightarrow>
          (\<exists>norms'. norm_all ops st M norm_type norms = Inr norms'
             \<and> length norms' = length norms
             \<and> take N norms' = map (\<lambda>p. gv_norm ops norm_type (vecs st ! p)) (mv M)
             \<and> drop N norms' = drop N norms))"
proof (intro conjI impI)
  assume a: "v < length (vecs st) \<and> N \<le> length m"
  let ?row = "map (\<lambda>p. gv_inner ops (vecs st ! p) (vecs st ! v)) (mv M)"
  have "dot_GenericVector ops st M v m =
      Inr (?row @ drop N m, st\<lparr>inner_calls := inner_calls st @ map (\<lambda>p. (p, v)) (mv M)\<rparr>)"
    using dot_vec_loop_eq [of "mv M" st v 0 m ops] assms a
    by (simp add: dot_GenericVector_def)
  moreover have "length (?row @ drop N m) = length m" "take N (?row @ drop N m) = ?row"
    "drop N (?row @ drop N m) = drop N m"
    using assms(1) a by simp_all
  ultimately show "\<exists>m' st'. dot_GenericVector ops st M v m = Inr (m', st')
             \<and> length m' = length m
             \<and> take N m' = ?row
             \<and> drop N m' = drop N m"
    by blast
next
  assume a: "mv_begin other \<noteq> mv_begin M \<and> (\<forall>q\<in>set (mv other). q < length (vecs st))
            \<and> N * length (mv other) \<le> length m"
  let ?K = "N * length (mv other)"
  let ?rows = "concat (map (\<lambda>p. map (\<lambda>q. gv_inner ops (vecs st ! p) (vecs st ! q)) (mv other)) (mv M))"
  have "dot_MultiVector ops st M other m =
      Inr (?rows @ drop ?K m,
           st\<lparr>inner_calls := inner_calls st @ concat (map (\<lambda>p. map (\<lambda>q. (p, q)) (mv other)) (mv M))\<rparr>)"
    using dot_rows_eq [of "mv M" st "mv other" 0 m ops] assms a
    by (simp add: dot_MultiVector_def)
  moreover have lrows: "length ?rows = ?K"
    using assms(1) by (simp add: length_concat_rows)
  moreover have "length (?rows @ drop ?K m) = length m" "take ?K (?rows @ drop ?K m) = ?rows"
    "drop ?K (?rows @ drop ?K m) = drop ?K m"
    using lrows a by simp_all
  ultimately show "\<exists>m' st'. dot_MultiVector ops st M other m = Inr (m', st')
             \<and> length m' = length m
             \<and> take ?K m' = ?rows
             \<and> drop ?K m' = drop ?K m"
    by blast
next
  assume a: "int (N * N) \<le> INT_MAX \<and> N * N \<le> length m"
  let ?G = "\<lambda>k. gv_inner ops (vecs st ! (mv M ! max (k mod N) (k div N)))
                              (vecs st ! (mv M ! min (k mod N) (k div N)))"
  obtain m' st' where
    run: "dot_self ops st M m = Inr (m', st')"
    and len: "length m' = length m"
    and vals: "\<And>k. k < length m \<Longrightarrow> m' ! k = (if k < N * N then ?G k else m ! k)"
    using dot_self_eq [OF assms(1,2), of m ops] a by blast
  have same: "mv_begin other = mv_begin M \<longrightarrow> dot_MultiVector ops st M other m = Inr (m', st')"
    using run by (simp add: dot_MultiVector_def)
  have tk: "take (N * N) m' = map ?G [0..<N * N]"
  proof (rule nth_equalityI)
    show "length (take (N * N) m') = length (map ?G [0..<N * N])"
      using len a by simp
  next
    fix k assume "k < length (take (N * N) m')"
    then have k: "k < N * N" "k < length m" using len a by simp_all
    show "take (N * N) m' ! k = map ?G [0..<N * N] ! k"
      using k vals [of k] by simp
  qed
  have dr: "drop (N * N) m' = drop (N * N) m"
  proof (rule nth_equalityI)
    show "length (drop (N * N) m') = length (drop (N * N) m)"
      using len by simp
  next
    fix k assume "k < length (drop (N * N) m')"
    then have k: "N * N + k < length m" using len by simp
    show "drop (N * N) m' ! k = drop (N * N) m ! k"
      using k vals [of "N * N + k"] len a by simp
  qed
  show "\<exists>m' st'. dot_self ops st M m = Inr (m', st')
             \<and> (mv_begin other = mv_begin M \<longrightarrow> dot_MultiVector ops st M other m = Inr (m', st'))
             \<and> length m' = length m
             \<and> take (N * N) m' = map ?G [0..<N * N]
             \<and> drop (N * N) m' = drop (N * N) m"
    using run same len tk dr by blast
next
  assume a: "N \<le> length norms"
  let ?row = "map (\<lambda>p. gv_norm ops norm_type (vecs st ! p)) (mv M)"
  have "norm_all ops st M norm_type norms = Inr (?row @ drop N norms)"
    using norm_loop_eq [of "mv M" st 0 norms ops norm_type] assms a
    by (simp add: norm_all_def)
  moreover have "length (?row @ drop N norms) = length norms" "take N (?row @ drop N norms) = ?row"
    "drop N (?row @ drop N norms) = drop N norms"
    using assms(1) a by simp_all
  ultimately show "\<exists>norms'. norm_all ops st M norm_type norms = Inr norms'
             \<and> length norms' = length norms
             \<and> take N norms' = ?row
             \<and> drop N norms' = drop N norms"
    by blast
qed

text \<open>
  The hypotheses of C10 hold for the MultiVector of \<open>(1, 2)\<close> and \<open>(3, 4)\<close>, an array
  of five entries and an array of three.
\<close>

theorem output_buffers_frame_witness:
  "(2::nat) = length (mv example_mv)
   \<and> list_all (\<lambda>p. p < length (vecs example_store)) (mv example_mv)
   \<and> 2 < length (vecs example_store) \<and> 2 \<le> length [0, 0, 0, 0, 9::int]
   \<and> mv_begin example_other \<noteq> mv_begin example_mv
   \<and> list_all (\<lambda>q. q < length (vecs example_store)) (mv example_other)
   \<and> 2 * length (mv example_other) \<le> length [0, 0, 0, 0, 9::int]
   \<and> int (2 * 2) \<le> INT_MAX \<and> 2 * 2 \<le> length [0, 0, 0, 0, 9::int]
   \<and> 2 \<le> length [0, 0, 7::int]
   \<and> (\<exists>m' st'. dot_GenericVector int_pair_vectors example_store example_mv 2 [0, 0, 0, 0, 9]
                  = Inr (m', st')
          \<and> take 2 m' = [17, 39] \<and> drop 2 m' = [0, 0, 9])
   \<and> (\<exists>m' st'. dot_MultiVector int_pair_vectors example_store example_mv example_other
                    [0, 0, 0, 0, 9] = Inr (m', st')
          \<and> take 2 m' = [17, 39] \<and> drop 2 m' = [0, 0, 9])
   \<and> (\<exists>m' st'. dot_self int_pair_vectors example_store example_mv [0, 0, 0, 0, 9] = Inr (m', st')
          \<and> take 4 m' = [5, 11, 11, 25] \<and> drop 4 m' = [9])
   \<and> (\<exists>norms'. norm_all int_pair_vectors example_store example_mv ''l1'' [0, 0, 7] = Inr norms'
          \<and> take 2 norms' = [3, 7] \<and> drop 2 norms' = [7])"
proof -
  have h1: "(2::nat) = length (mv example_mv)" by (simp add: example_mv_def)
  have h2: "\<forall>p\<in>set (mv example_mv). p < length (vecs example_store)"
    by (simp add: example_mv_def example_store_def)
  have a1: "2 < length (vecs example_store) \<and> 2 \<le> length [0, 0, 0, 0, 9::int]"
    by (simp add: example_store_def)
  have b1: "mv_begin example_other \<noteq> mv_begin example_mv"
    by (simp add: example_mv_def example_other_def)
  have b2: "\<forall>q\<in>set (mv example_other). q < length (vecs example_store)"
    by (simp add: example_other_def example_store_def)
  have b3: "2 * length (mv example_other) \<le> length [0, 0, 0, 0, 9::int]"
    by (simp add: example_other_def)
  have c1: "int (2 * 2) \<le> INT_MAX \<and> 2 * 2 \<le> length [0, 0, 0, 0, 9::int]"
    by (simp add: INT_MAX_def)
  have d1: "2 \<le> length [0, 0, 7::int]" by simp
  note frame = output_buffers_frame [OF h1 h2, of 2 "[0, 0, 0, 0, 9]" int_pair_vectors
      example_other "[0, 0, 7]" "''l1''"]
  have p1: "\<exists>m' st'. dot_GenericVector int_pair_vectors example_store example_mv 2 [0, 0, 0, 0, 9]
                  = Inr (m', st')
          \<and> take 2 m' = [17, 39] \<and> drop 2 m' = [0, 0, 9]"
    using frame [THEN conjunct1, rule_format, OF a1]
    by (auto simp: example_mv_def example_store_def int_pair_vectors_def)
  have p2: "\<exists>m' st'. dot_MultiVector int_pair_vectors example_store example_mv example_other
                    [0, 0, 0, 0, 9] = Inr (m', st')
          \<and> take 2 m' = [17, 39] \<and> drop 2 m' = [0, 0, 9]"
    using frame [THEN conjunct2, THEN conjunct1, rule_format, OF conjI [OF b1 conjI [OF b2 b3]]]
    by (auto simp: example_mv_def example_other_def example_store_def int_pair_vectors_def)
  have p3: "\<exists>m' st'. dot_self int_pair_vectors example_store example_mv [0, 0, 0, 0, 9] = Inr (m', st')
          \<and> take 4 m' = [5, 11, 11, 25] \<and> drop 4 m' = [9]"
    using frame [THEN conjunct2, THEN conjunct2, THEN conjunct1, rule_format, OF c1]
    by (auto simp: example_mv_def example_store_def int_pair_vectors_def upt_rec [of _ 4])
  have p4: "\<exists>norms'. norm_all int_pair_vectors example_store example_mv ''l1'' [0, 0, 7] = Inr norms'
          \<and> take 2 norms' = [3, 7] \<and> drop 2 norms' = [7]"
    using frame [THEN conjunct2, THEN conjunct2, THEN conjunct2, rule_format, OF d1]
    by (auto simp: example_mv_def example_store_def int_pair_vectors_def)
  have h2': "list_all (\<lambda>p. p < length (vecs example_store)) (mv example_mv)"
    using h2 by (simp add: list_all_iff)
  have b2': "list_all (\<lambda>q. q < length (vecs example_store)) (mv example_other)"
    using b2 by (simp add: list_all_iff)
  show ?thesis
    using h1 h2' a1 b1 b2' b3 c1 d1 p1 p2 p3 p4 by blast
qed

end
